theory Spec2Isabelle
  imports Complex_Main "HOL-Library.Multiset"
begin

section \<open>The platform: ECMAScript numbers, time values and strings\<close>

text \<open>
  The tracking service is TypeScript. Its numbers are modelled as exact rationals
  (\<^typ>\<open>rat\<close>) and, where the source only ever holds an integer, as \<^typ>\<open>int\<close>.
  Every offset of the compiled-in station table is a multiple of one half, so every product
  and sum the resolver forms is an integer or a half-integer far below \<open>2^53\<close> and is exact
  in binary64 as well; the one rounded operation of the resolver, \<open>totalMinutes / 60\<close>, is
  only used under \<open>Math.floor\<close>, whose result a rounding error of that size cannot change.
  The message generator works on arbitrary binary64 numbers: its draws, its literals
  \<open>0.4\<close>, \<open>0.7\<close> and \<open>0.85\<close>, the product \<open>Math.random() * length\<close> and the quotient
  \<open>delivered / 1000000000\<close>. There each binary64 number is the rational it denotes, and a
  literal or an operation is the exact result rounded by \<open>binary64\<close> below.

  A time value is the number of milliseconds since 1970-01-01T00:00:00Z. The functions
  below are the ones of the ECMAScript specification (section "Time Values and Time
  Range"), under its names. \<open>YearFromTime\<close> is specified there as "the largest integer y
  such that TimeFromYear(y) \<le> t"; \<open>YearFromDay\<close> computes it in closed form, and
  \<open>YearFromDay_largest\<close> below proves that it is that year.
\<close>

datatype js_error = TypeError

definition msPerDay :: int where
  "msPerDay = 86400000"

definition msPerHour :: int where
  "msPerHour = 3600000"

definition msPerMinute :: int where
  "msPerMinute = 60000"

definition Day :: "int \<Rightarrow> int" where
  "Day t = t div msPerDay"

definition DaysInYear :: "int \<Rightarrow> int" where
  "DaysInYear y = (if y mod 4 \<noteq> 0 then 365 else if y mod 100 \<noteq> 0 then 366
                   else if y mod 400 \<noteq> 0 then 365 else 366)"

definition DayFromYear :: "int \<Rightarrow> int" where
  "DayFromYear y = 365 * (y - 1970) + (y - 1969) div 4 - (y - 1901) div 100 + (y - 1601) div 400"

definition YearFromDay :: "int \<Rightarrow> int" where
  "YearFromDay d =
     (let n = d + 134774;
          n400 = n div 146097; r400 = n mod 146097;
          n100 = min 3 (r400 div 36524); r100 = r400 - n100 * 36524;
          n4 = r100 div 1461; r4 = r100 mod 1461;
          n1 = min 3 (r4 div 365)
      in 1601 + 400 * n400 + 100 * n100 + 4 * n4 + n1)"

definition YearFromTime :: "int \<Rightarrow> int" where
  "YearFromTime t = YearFromDay (Day t)"

definition InLeapYear :: "int \<Rightarrow> int" where
  "InLeapYear t = (if DaysInYear (YearFromTime t) = 366 then 1 else 0)"

definition DayWithinYear :: "int \<Rightarrow> int" where
  "DayWithinYear t = Day t - DayFromYear (YearFromTime t)"

definition MonthFromTime :: "int \<Rightarrow> int" where
  "MonthFromTime t =
     (let d = DayWithinYear t; l = InLeapYear t in
      if d < 31 then 0
      else if d < 59 + l then 1
      else if d < 90 + l then 2
      else if d < 120 + l then 3
      else if d < 151 + l then 4
      else if d < 181 + l then 5
      else if d < 212 + l then 6
      else if d < 243 + l then 7
      else if d < 273 + l then 8
      else if d < 304 + l then 9
      else if d < 334 + l then 10
      else 11)"

definition DateFromTime :: "int \<Rightarrow> int" where
  "DateFromTime t =
     (let d = DayWithinYear t; l = InLeapYear t; m = MonthFromTime t in
      if m = 0 then d + 1
      else if m = 1 then d - 30
      else if m = 2 then d - 58 - l
      else if m = 3 then d - 89 - l
      else if m = 4 then d - 119 - l
      else if m = 5 then d - 150 - l
      else if m = 6 then d - 180 - l
      else if m = 7 then d - 211 - l
      else if m = 8 then d - 242 - l
      else if m = 9 then d - 272 - l
      else if m = 10 then d - 303 - l
      else d - 333 - l)"

definition HourFromTime :: "int \<Rightarrow> int" where
  "HourFromTime t = (t div msPerHour) mod 24"

definition MinFromTime :: "int \<Rightarrow> int" where
  "MinFromTime t = (t div msPerMinute) mod 60"

text \<open>
  \<open>trunc\<close> is ToIntegerOrInfinity on a finite number (rounding towards zero), and
  \<open>mkDate v\<close> is the time value of \<open>new Date(v)\<close>: TimeClip makes it \<open>NaN\<close> (here
  \<open>None\<close>) when \<open>v\<close> lies more than \<open>8.64e15\<close> ms from the epoch. Every getter of such
  an invalid date returns \<open>NaN\<close>, and every comparison with \<open>NaN\<close> is false.
\<close>

definition trunc :: "rat \<Rightarrow> int" where
  "trunc v = (if 0 \<le> v then \<lfloor>v\<rfloor> else \<lceil>v\<rceil>)"

definition mkDate :: "rat \<Rightarrow> int option" where
  "mkDate v = (if \<bar>v\<bar> \<le> 8640000000000000 then Some (trunc v) else None)"

text \<open>
  The remainder operator \<open>%\<close>: the result has the sign of the dividend,
  \<open>n % d = n - d * q\<close> with \<open>q\<close> the quotient rounded towards zero.
\<close>

definition js_rem :: "rat \<Rightarrow> rat \<Rightarrow> rat" where
  "js_rem n d = n - d * of_int (trunc (n / d))"

definition js_rem_int :: "int \<Rightarrow> int \<Rightarrow> int" where
  "js_rem_int n d = n - d * trunc (of_int n / of_int d)"

text \<open>
  Rounding to binary64: \<open>binary64 x\<close> is the binary64 number nearest to \<open>x\<close>, the one with
  the even significand when two are equally near (roundTiesToEven, the rounding of every
  ECMAScript arithmetic operation and numeric literal). \<open>exponentOf a\<close> is the integer \<open>e\<close>
  with \<open>2^e \<le> a < 2^(e+1)\<close>; a significand has 53 bits, so the numbers next to \<open>a\<close> are
  \<open>2^(e-52)\<close> apart, and not less than \<open>2^(-1074)\<close> apart in the subnormal range;
  \<open>binary64_correctly_rounded\<close> below proves these properties of the result. (Results
  beyond the largest binary64 number, which would be \<open>Infinity\<close>, do not arise from the
  operations modelled here.)
\<close>

function bitLength :: "int \<Rightarrow> int" where
  "bitLength n = (if n \<le> 0 then 0 else 1 + bitLength (n div 2))"
  by pat_completeness auto
termination
  by (relation "measure nat") auto

declare bitLength.simps [simp del]

definition pow2 :: "int \<Rightarrow> rat" where
  "pow2 e = (if 0 \<le> e then 2 ^ nat e else 1 / 2 ^ nat (- e))"

definition exponentOf :: "rat \<Rightarrow> int" where
  "exponentOf a = (if 1 \<le> a then bitLength \<lfloor>a\<rfloor> - 1 else - bitLength (\<lceil>1 / a\<rceil> - 1))"

definition roundTiesToEven :: "rat \<Rightarrow> int" where
  "roundTiesToEven q =
     (let f = \<lfloor>q\<rfloor>; r = q - of_int f
      in if r < 1 / 2 then f else if 1 / 2 < r then f + 1 else if even f then f else f + 1)"

definition binary64 :: "rat \<Rightarrow> rat" where
  "binary64 x =
     (if x = 0 then 0
      else let a = \<bar>x\<bar>;
               e = max (exponentOf a) (- 1022);
               ulp = pow2 (e - 52)
           in sgn x * of_int (roundTiesToEven (a / ulp)) * ulp)"

text \<open>
  \<open>Number.prototype.toString\<close> on an integer (decimal digits, a minus sign when
  negative; \<open>-0\<close> prints as \<open>0\<close>, as the integer \<open>0\<close> does here), and
  \<open>String.prototype.padStart\<close> with a one-character filler.
\<close>

definition digit_char :: "nat \<Rightarrow> char" where
  "digit_char n = char_of (48 + n)"

fun nat_toString :: "nat \<Rightarrow> string" where
  "nat_toString n = (if n < 10 then [digit_char n]
                     else nat_toString (n div 10) @ [digit_char (n mod 10)])"

declare nat_toString.simps [simp del]

definition int_toString :: "int \<Rightarrow> string" where
  "int_toString i = (if i < 0 then CHR ''-'' # nat_toString (nat (- i)) else nat_toString (nat i))"

definition padStart :: "nat \<Rightarrow> char \<Rightarrow> string \<Rightarrow> string" where
  "padStart n c s = replicate (n - length s) c @ s"

text \<open>
  \<open>Number.prototype.toFixed(f)\<close> below \<open>1e21\<close>: the integer \<open>n\<close> for which
  \<open>n / 10^f\<close> is nearest to \<open>\<bar>x\<bar>\<close> (the larger one on a tie), printed with at least
  \<open>f + 1\<close> digits and a point before the last \<open>f\<close>; a negative \<open>x\<close> gets a minus sign.
  The specification defines it on the exact value of the number, as here. (At \<open>1e21\<close> and
  above the platform switches to exponent notation, which this model does not cover; the
  speed and the delivered count are far below.)
\<close>

definition toFixed :: "nat \<Rightarrow> rat \<Rightarrow> string" where
  "toFixed f x =
     (let a = \<bar>x\<bar>;
          n = nat \<lfloor>a * 10 ^ f + 1 / 2\<rfloor>;
          m = padStart (f + 1) CHR ''0'' (nat_toString n);
          k = length m;
          body = (if f = 0 then m else take (k - f) m @ ''.'' @ drop (k - f) m)
      in if x < 0 then CHR ''-'' # body else body)"

text \<open>
  \<open>String.prototype.replace\<close> with a string pattern: the first occurrence of the pattern
  is replaced; in the replacement text \<open>$$\<close> stands for a dollar sign, \<open>$&\<close> for the
  matched text, \<open>$`\<close> for the text before the match and \<open>$'\<close> for the text after it.
\<close>

fun find_first :: "string \<Rightarrow> string \<Rightarrow> string \<Rightarrow> (string \<times> string) option" where
  "find_first pat seen [] = (if pat = [] then Some (seen, []) else None)"
| "find_first pat seen (c # cs) =
     (if take (length pat) (c # cs) = pat then Some (seen, drop (length pat) (c # cs))
      else find_first pat (seen @ [c]) cs)"

fun GetSubstitution :: "string \<Rightarrow> string \<Rightarrow> string \<Rightarrow> string \<Rightarrow> string" where
  "GetSubstitution matched left right [] = []"
| "GetSubstitution matched left right [c] = [c]"
| "GetSubstitution matched left right (c # d # cs) =
     (if c = CHR ''$'' \<and> d = CHR ''$'' then CHR ''$'' # GetSubstitution matched left right cs
      else if c = CHR ''$'' \<and> d = CHR ''&'' then matched @ GetSubstitution matched left right cs
      else if c = CHR ''$'' \<and> d = CHR 0x60 then left @ GetSubstitution matched left right cs
      else if c = CHR ''$'' \<and> d = CHR 0x27 then right @ GetSubstitution matched left right cs
      else c # GetSubstitution matched left right (d # cs))"

definition replace :: "string \<Rightarrow> string \<Rightarrow> string \<Rightarrow> string" where
  "replace s pat rep =
     (case find_first pat [] s of
        None \<Rightarrow> s
      | Some (left, right) \<Rightarrow> left @ GetSubstitution pat left right rep @ right)"


section \<open>The tracking service\<close>

subsection \<open>Stations\<close>

record TrackingLocation =
  name :: string
  offset :: rat
  region :: string
  coordinates :: "rat \<times> rat"

definition TRACKING_STATIONS :: "TrackingLocation list" where
  "TRACKING_STATIONS = [
     \<lparr>name = ''MIDWAY'', offset = -11, region = ''PACIFIC'', coordinates = (28.2072, -177.3735)\<rparr>,
     \<lparr>name = ''HONOLULU'', offset = -10, region = ''PACIFIC'', coordinates = (21.3069, -157.8583)\<rparr>,
     \<lparr>name = ''ANCHORAGE'', offset = -9, region = ''N. AMERICA'', coordinates = (61.2181, -149.9003)\<rparr>,
     \<lparr>name = ''LOS ANGELES'', offset = -8, region = ''N. AMERICA'', coordinates = (34.0522, -118.2437)\<rparr>,
     \<lparr>name = ''DENVER'', offset = -7, region = ''N. AMERICA'', coordinates = (39.7392, -104.9903)\<rparr>,
     \<lparr>name = ''CHICAGO'', offset = -6, region = ''N. AMERICA'', coordinates = (41.8781, -87.6298)\<rparr>,
     \<lparr>name = ''NEW YORK'', offset = -5, region = ''N. AMERICA'', coordinates = (40.7128, -74.0060)\<rparr>,
     \<lparr>name = ''CARACAS'', offset = -4, region = ''S. AMERICA'', coordinates = (10.4806, -66.9036)\<rparr>,
     \<lparr>name = ''RIO DE JANEIRO'', offset = -3, region = ''S. AMERICA'', coordinates = (-22.9068, -43.1729)\<rparr>,
     \<lparr>name = ''CAPE VERDE'', offset = -1, region = ''ATLANTIC'', coordinates = (14.9330, -23.5133)\<rparr>,
     \<lparr>name = ''LONDON'', offset = 0, region = ''EUROPE'', coordinates = (51.5074, -0.1278)\<rparr>,
     \<lparr>name = ''PARIS'', offset = 1, region = ''EUROPE'', coordinates = (48.8566, 2.3522)\<rparr>,
     \<lparr>name = ''CAIRO'', offset = 2, region = ''AFRICA'', coordinates = (30.0444, 31.2357)\<rparr>,
     \<lparr>name = ''MOSCOW'', offset = 3, region = ''RUSSIA'', coordinates = (55.7558, 37.6173)\<rparr>,
     \<lparr>name = ''NAIROBI'', offset = 3, region = ''AFRICA'', coordinates = (-1.2864, 36.8172)\<rparr>,
     \<lparr>name = ''DUBAI'', offset = 4, region = ''MIDDLE EAST'', coordinates = (25.2048, 55.2708)\<rparr>,
     \<lparr>name = ''TEHRAN'', offset = 3.5, region = ''MIDDLE EAST'', coordinates = (35.6892, 51.3890)\<rparr>,
     \<lparr>name = ''MUMBAI'', offset = 5.5, region = ''ASIA'', coordinates = (19.0760, 72.8777)\<rparr>,
     \<lparr>name = ''NEW DELHI'', offset = 5.5, region = ''ASIA'', coordinates = (28.6139, 77.2090)\<rparr>,
     \<lparr>name = ''DHAKA'', offset = 6, region = ''ASIA'', coordinates = (23.8103, 90.4125)\<rparr>,
     \<lparr>name = ''BANGKOK'', offset = 7, region = ''ASIA'', coordinates = (13.7563, 100.5018)\<rparr>,
     \<lparr>name = ''JAKARTA'', offset = 7, region = ''ASIA'', coordinates = (-6.2088, 106.8456)\<rparr>,
     \<lparr>name = ''BEIJING'', offset = 8, region = ''ASIA'', coordinates = (39.9042, 116.4074)\<rparr>,
     \<lparr>name = ''TOKYO'', offset = 9, region = ''ASIA'', coordinates = (35.6762, 139.6503)\<rparr>,
     \<lparr>name = ''GUAM'', offset = 10, region = ''PACIFIC'', coordinates = (13.4443, 144.7937)\<rparr>,
     \<lparr>name = ''SYDNEY'', offset = 11, region = ''AUSTRALIA'', coordinates = (-33.8688, 151.2093)\<rparr>,
     \<lparr>name = ''KAMCHATKA'', offset = 12, region = ''RUSSIA'', coordinates = (56.1327, 159.5314)\<rparr>,
     \<lparr>name = ''AUCKLAND'', offset = 13, region = ''NEW ZEALAND'', coordinates = (-36.8509, 174.7645)\<rparr>,
     \<lparr>name = ''KIRITIMATI'', offset = 14, region = ''PACIFIC'', coordinates = (1.8709, -157.4014)\<rparr>
   ]"

definition NORTH_POLE_COORDS :: "rat \<times> rat" where
  "NORTH_POLE_COORDS = (90, 0)"

definition NORTH_POLE :: TrackingLocation where
  "NORTH_POLE = \<lparr>name = ''NORTH POLE'', offset = 0, region = ''ARCTIC'',
                  coordinates = NORTH_POLE_COORDS\<rparr>"

subsection \<open>The resolver \<open>getSantaLocation\<close>\<close>

record SantaLocation =
  location :: TrackingLocation
  localTime :: string
  isChristmas :: bool
  visitedLocations :: "(rat \<times> rat) list"
  plannedRoute :: "(rat \<times> rat) list"

text \<open>
  \<open>[...TRACKING_STATIONS].sort((a, b) => b.offset - a.offset)\<close>: \<open>Array.prototype.sort\<close>
  is stable, and the comparator orders by descending offset, so the result is the stable
  sort by the key \<open>- offset\<close>.
\<close>

definition stationsByTimezone :: "TrackingLocation list \<Rightarrow> TrackingLocation list" where
  "stationsByTimezone stations = sort_key (\<lambda>s. - offset s) stations"

text \<open>
  \<open>new Date(now.getTime() + station.offset * 60 * 60 * 1000)\<close>, and the tests on the month
  and the day of the month of such a date (false on an invalid date, whose fields are
  \<open>NaN\<close>).
\<close>

definition stationLocalTime :: "int \<Rightarrow> TrackingLocation \<Rightarrow> int option" where
  "stationLocalTime now station = mkDate (of_int now + offset station * 60 * 60 * 1000)"

definition isDecember25 :: "int option \<Rightarrow> bool" where
  "isDecember25 d = (case d of None \<Rightarrow> False
                     | Some t \<Rightarrow> MonthFromTime t = 11 \<and> DateFromTime t = 25)"

definition beforeDecember25 :: "int option \<Rightarrow> bool" where
  "beforeDecember25 d = (case d of None \<Rightarrow> False
                         | Some t \<Rightarrow> MonthFromTime t = 11 \<and> DateFromTime t < 25)"

definition minutesUntilMidnight :: "int \<Rightarrow> int" where
  "minutesUntilMidnight t = (24 - HourFromTime t) * 60 - MinFromTime t + 1"

text \<open>
  The search loop over \<open>stationsByTimezone\<close>. The state is
  \<open>(currentStationIndex, smallestTimeToMidnight)\<close>, starting at \<open>(-1, Infinity)\<close>;
  \<open>None\<close> stands for \<open>Infinity\<close>, and \<open>localT\<close> is the source's \<open>localTime\<close>. A station
  whose local date is invalid fails the test \<open>localMonth === 11 && localDate === 25\<close> and
  is skipped.
\<close>

definition lessThanSmallest :: "int \<Rightarrow> int option \<Rightarrow> bool" where
  "lessThanSmallest m smallest = (case smallest of None \<Rightarrow> True | Some s \<Rightarrow> m < s)"

fun scanStations :: "int \<Rightarrow> TrackingLocation list \<Rightarrow> int \<Rightarrow> int \<times> int option \<Rightarrow> int \<times> int option" where
  "scanStations now [] i st = st"
| "scanStations now (station # rest) i (currentStationIndex, smallestTimeToMidnight) =
     (case stationLocalTime now station of
        None \<Rightarrow> scanStations now rest (i + 1) (currentStationIndex, smallestTimeToMidnight)
      | Some localT \<Rightarrow>
          if MonthFromTime localT = 11 \<and> DateFromTime localT = 25 \<and>
             lessThanSmallest (minutesUntilMidnight localT) smallestTimeToMidnight
          then scanStations now rest (i + 1) (i, Some (minutesUntilMidnight localT))
          else scanStations now rest (i + 1) (currentStationIndex, smallestTimeToMidnight))"

definition localTimeString :: "int \<Rightarrow> rat \<Rightarrow> string" where
  "localTimeString now off =
     (let utcHours = HourFromTime now;
          utcMinutes = MinFromTime now;
          totalMinutes = of_int (utcHours * 60) + of_int utcMinutes + off * 60;
          localH = js_rem_int \<lfloor>js_rem (totalMinutes / 60) 24 + 24\<rfloor> 24;
          localM = \<lfloor>js_rem totalMinutes 60\<rfloor>
      in padStart 2 CHR ''0'' (int_toString localH) @ '':'' @ padStart 2 CHR ''0'' (int_toString localM))"

definition fullRoute :: "TrackingLocation list \<Rightarrow> (rat \<times> rat) list" where
  "fullRoute ordered = NORTH_POLE_COORDS # map coordinates ordered @ [NORTH_POLE_COORDS]"

text \<open>
  The resolver, with what it reads from its environment as parameters: the station table
  (the module constant \<open>TRACKING_STATIONS\<close>), the observer's local time zone adjustment
  \<open>tza\<close> in milliseconds (used by \<open>now.getDate()\<close> and \<open>now.getMonth()\<close> only) and the
  clock reading \<open>now\<close>. \<open>ordered\<close> is the source's array \<open>stationsByTimezone\<close>; the
  loops that push coordinates are written with \<open>map\<close> and \<open>take\<close>, and the home-base
  record both branches build is \<open>NORTH_POLE\<close>. Reading \<open>.offset\<close> of
  \<open>stationsByTimezone[0]\<close> throws a \<open>TypeError\<close> when the table is empty.
\<close>

definition getSantaLocationOn :: "TrackingLocation list \<Rightarrow> int \<Rightarrow> int \<Rightarrow> js_error + SantaLocation" where
  "getSantaLocationOn stations tza now =
     (let ordered = stationsByTimezone stations;
          currentStationIndex = fst (scanStations now ordered 0 (-1, None))
      in case ordered of
           [] \<Rightarrow> Inl TypeError
         | firstStation # _ \<Rightarrow>
             let christmasNotStarted = beforeDecember25 (stationLocalTime now firstStation);
                 (currentStation, visited) =
                   (if christmasNotStarted then (NORTH_POLE, [NORTH_POLE_COORDS])
                    else if currentStationIndex \<ge> 0 then
                      (ordered ! nat currentStationIndex,
                       NORTH_POLE_COORDS # map coordinates (take (nat (currentStationIndex + 1)) ordered))
                    else (NORTH_POLE, fullRoute ordered))
             in Inr \<lparr>location = currentStation,
                     localTime = localTimeString now (offset currentStation),
                     isChristmas = (DateFromTime (now + tza) = 25 \<and> MonthFromTime (now + tza) = 11),
                     visitedLocations = visited,
                     plannedRoute = fullRoute ordered\<rparr>)"

definition getSantaLocation :: "int \<Rightarrow> int \<Rightarrow> js_error + SantaLocation" where
  "getSantaLocation tza now = getSantaLocationOn TRACKING_STATIONS tza now"

subsection \<open>The delivered-count accumulator \<open>calculateGifts\<close>\<close>

definition calculateGifts :: "int \<Rightarrow> int" where
  "calculateGifts now = 4500000000 + js_rem_int now 10000000 * 15"


subsection \<open>The message generator \<open>generateIntelMessage\<close>\<close>

text \<open>
  \<open>REGION_LOGS\<close> is an object literal. \<open>REGION_LOGS[region]\<close> finds an own property (a
  message set), or a property inherited from \<open>Object.prototype\<close> (a function or an
  object: truthy, and indexing it by a number yields \<open>undefined\<close>), or nothing
  (\<open>undefined\<close>, which is falsy).
\<close>

datatype property = Own "string list" | Inherited | Absent

definition REGION_LOGS :: "(string \<times> string list) list" where
  "REGION_LOGS = [
     (''PACIFIC'', [''PACIFIC COMMAND: RADAR CONTACT CONFIRMED'', ''OCEANIC SENSORS DETECT SLEIGH WAKE'',
                    ''US NAVY FLEET REPORTS VISUAL'', ''TROPICAL WEATHER SYSTEMS: CLEAR'']),
     (''NEW ZEALAND'', [''KIWI SECTOR: AIRSPACE CLEAR'', ''SOUTHERN CROSS VISUAL CONFIRMED'',
                        ''WELLINGTON CONTROL: GREETINGS'']),
     (''AUSTRALIA'', [''RAAF INTERCEPTORS SCRAMBLED FOR ESCORT'', ''OUTBACK SENSORS ONLINE'',
                      ''OPERATING IN SOUTHERN HEMISPHERE'']),
     (''ASIA'', [''HIGH DENSITY POPULATION SECTOR'', ''MANEUVERING AROUND SKYSCRAPERS'',
                 ''ORIENTAL AIR DEFENSE: FRIENDLY'', ''SPEED INCREASED FOR DENSITY'']),
     (''RUSSIA'', [''ENTERING RUSSIAN FEDERATION AIRSPACE'', ''SIBERIAN THERMAL ANOMALY DETECTED'',
                   ''COSMODROME TRACKING ACTIVE'']),
     (''EUROPE'', [''NATO EYES ONLY: TARGET TRACKING ACTIVE'', ''ALPINE RADAR ECHOES'',
                   ''EU AIR TRAFFIC CONTROL: PRIORITY CLEARANCE'']),
     (''AFRICA'', [''SAHARA THERMAL PLUME STABLE'', ''EQUATORIAL CROSSING CONFIRMED'',
                   ''CONTINENTAL SCANS: GREEN'']),
     (''ATLANTIC'', [''MID-ATLANTIC RIDGE SENSORS ACTIVE'', ''CARRIER GROUP REPORTS FLYBY'',
                     ''METEOROLOGICAL DATA: HEADWINDS'']),
     (''N. AMERICA'', [''NORAD MAIN SENSORS: 100% CONFIDENCE'', ''EAST COAST DEFENSE GRID: GREEN'',
                       ''CANADIAN NORAD REGION: CONTACT'', ''FIGHTER WING DEPLOYED AS HONOR GUARD'']),
     (''S. AMERICA'', [''SOUTHERN CONE RADAR: ACTIVE'', ''AMAZON BASIN THERMAL SCAN: CLEAR'']),
     (''MIDDLE EAST'', [''DESERT SENSORS ONLINE'', ''AIRSPACE CORRIDOR SECURED'']),
     (''ARCTIC'', [''POLAR VORTEX NAVIGATION ENGAGED'', ''HOME BASE TELEMETRY LINKED'',
                   ''AURORA BOREALIS INTERFERENCE: NEGLIGIBLE''])
   ]"

definition Object_prototype_keys :: "string list" where
  "Object_prototype_keys = [''constructor'', ''hasOwnProperty'', ''isPrototypeOf'',
     ''propertyIsEnumerable'', ''toLocaleString'', ''toString'', ''valueOf'', ''__proto__'',
     ''__defineGetter__'', ''__defineSetter__'', ''__lookupGetter__'', ''__lookupSetter__'']"

definition REGION_LOGS_get :: "string \<Rightarrow> property" where
  "REGION_LOGS_get key =
     (case map_of REGION_LOGS key of
        Some logs \<Rightarrow> Own logs
      | None \<Rightarrow> if key \<in> set Object_prototype_keys then Inherited else Absent)"

definition ACTION_LOGS :: "string list" where
  "ACTION_LOGS = [
     ''TARGET LOCKED: %LOC%'',
     ''INITIATING DELIVERY SEQUENCE: %LOC%'',
     ''THERMAL SPIKE DETECTED OVER %LOC%'',
     ''DROPPING TO ROOFTOP ALTITUDE: %LOC%'',
     ''SONIC BOOM REPORTED NEAR %LOC%'',
     ''LOCAL AUTHORITIES IN %LOC% NOTIFIED'',
     ''HYPER-SPEED JUMP TO %LOC% COMPLETE'',
     ''MAGIC DUST LEVELS: NOMINAL'',
     ''TIME DILATION FIELD: ACTIVE'',
     ''CHIMNEY ENTRY PROTOCOL: INITIATED'']"

definition GENERIC_LOGS :: "string list" where
  "GENERIC_LOGS = [
     ''RADAR CONTACT: CONFIRMED // ID: RED SLED'',
     ''THERMAL SIGNATURE STABLE // EGT NORMAL'',
     ''AIRSPACE CLEARED FOR TRANSIT'',
     ''GROUND SENSORS DETECT HIGH VELOCITY OBJECT'',
     ''COMM CHATTER: ''  @ [CHR 0x27] @ ''MERRY CHRISTMAS'' @ [CHR 0x27] @ '' DETECTED'',
     ''REINDEER PROPULSION SYSTEMS NOMINAL'',
     ''CLOAKING DEVICE: DISENGAGED FOR LANDING'',
     ''INTERCEPT SQUADRON RTB // TARGET FRIENDLY'',
     ''ATMOSPHERIC ENTRY DETECTED // SHIELDS HOLDING'',
     ''TRAJECTORY ALIGNMENT: OPTIMAL'',
     ''VISIBILITY: UNLIMITED // CEILING: 50,000 FT'']"

definition templates :: "string list" where
  "templates = [
     ''MISSION STATUS: STANDBY / DEBRIEF'',
     ''ELVES LOADING FINAL PAYLOAD MANIFEST'',
     ''PRE-FLIGHT DIAGNOSTICS: ALL GREEN'',
     ''AWAITING LAUNCH WINDOW // UTC 10:00'',
     ''MAINTENANCE CREWS ATTENDING RED SLED'',
     ''REINDEER FEEDING IN PROGRESS'']"

text \<open>
  \<open>xs[Math.floor(r * xs.length)]\<close> for a draw \<open>r\<close>: the product is rounded to binary64
  before \<open>Math.floor\<close>. \<open>None\<close> is \<open>undefined\<close>, which an index outside the array yields
  (never for a draw of \<open>Math.random()\<close>, which lies in \<open>[0, 1)\<close>, on a non-empty array).
\<close>

definition pick :: "'a list \<Rightarrow> rat \<Rightarrow> 'a option" where
  "pick xs r = (let i = \<lfloor>binary64 (r * of_nat (length xs))\<rfloor>
                in if 0 \<le> i \<and> i < int (length xs) then Some (xs ! nat i) else None)"

definition velocityMessage :: "rat \<Rightarrow> string" where
  "velocityMessage speed = ''CURRENT VELOCITY: MACH '' @ toFixed 2 speed @ '' // HULL INTEGRITY 100%''"

definition payloadMessage :: "rat \<Rightarrow> string" where
  "payloadMessage delivered =
     ''PAYLOAD UPDATE: '' @ toFixed 3 (binary64 (delivered / 1000000000)) @ ''B UNITS CONFIRMED''"

text \<open>
  The generator, with the results of its calls of \<open>Math.random()\<close> as parameters: \<open>rand\<close>
  is the first draw and \<open>rand2\<close> the second (the home-base branch makes one draw only);
  \<open>regionTag\<close> is the source's parameter \<open>region\<close>. The draws, the speed and the
  delivered count are binary64 numbers; the literals \<open>0.4\<close>, \<open>0.7\<close> and \<open>0.85\<close> are the
  binary64 numbers nearest to these fractions (\<open>0.5\<close> is one itself).
  The result is \<open>Inr (Some s)\<close> for a returned string \<open>s\<close>, \<open>Inr None\<close> for a returned
  \<open>undefined\<close>, and \<open>Inl TypeError\<close> where \<open>.replace\<close> is called on \<open>undefined\<close>.
\<close>

definition generateIntelMessage ::
    "string \<Rightarrow> string \<Rightarrow> rat \<Rightarrow> rat \<Rightarrow> rat \<Rightarrow> rat \<Rightarrow> js_error + string option" where
  "generateIntelMessage locationName regionTag speed delivered rand rand2 =
     (if locationName = ''NORTH POLE'' then Inr (pick templates rand)
      else if rand < binary64 0.4 then
        (case pick ACTION_LOGS rand2 of
           None \<Rightarrow> Inl TypeError
         | Some tmpl \<Rightarrow> Inr (Some (replace tmpl ''%LOC%'' locationName)))
      else if rand < binary64 0.7 \<and> REGION_LOGS_get regionTag \<noteq> Absent then
        (case REGION_LOGS_get regionTag of
           Own regionLogs \<Rightarrow> Inr (pick regionLogs rand2)
         | _ \<Rightarrow> Inr None)
      else if rand < binary64 0.85 then
        (if rand2 > 0.5 then Inr (Some (velocityMessage speed))
         else Inr (Some (payloadMessage delivered)))
      else Inr (pick GENERIC_LOGS rand2))"


section \<open>Notions the properties are stated with\<close>

text \<open>
  \<open>candidateMinutes now s\<close> is \<open>Some m\<close> when the station \<open>s\<close> is on December 25 by its
  own calendar at the instant \<open>now\<close>, with \<open>m\<close> the minutes the search loop computes for it,
  and \<open>None\<close> when the loop skips the station.
\<close>

definition candidateMinutes :: "int \<Rightarrow> TrackingLocation \<Rightarrow> int option" where
  "candidateMinutes now s =
     (if isDecember25 (stationLocalTime now s)
      then map_option minutesUntilMidnight (stationLocalTime now s) else None)"

text \<open>
  The offset of a station in milliseconds, when \<open>offset * 60 * 60 * 1000\<close> is an integer (as
  it is for every station of the compiled-in table).
\<close>

definition offsetMillis :: "TrackingLocation \<Rightarrow> int" where
  "offsetMillis s = \<lfloor>offset s * 60 * 60 * 1000\<rfloor>"

definition afterDecember25 :: "int option \<Rightarrow> bool" where
  "afterDecember25 d = (case d of None \<Rightarrow> False
                        | Some t \<Rightarrow> MonthFromTime t = 11 \<and> DateFromTime t > 25)"

text \<open>
  The mission cycle of the year \<open>y\<close>, for the compiled-in table, whose easternmost station
  is at UTC+14 and whose westernmost one is at UTC-11. \<open>christmasDay y\<close> is the day number
  of December 25 of \<open>y\<close>. The cycle starts at \<open>cycleStart y\<close>, when December 1 begins at
  UTC+14 (from then on the resolver is in its pre-mission state); the mission is launched at
  \<open>launchTime y\<close>, when December 25 begins at UTC+14, and ends at \<open>missionEnd y\<close>, when
  December 26 begins at UTC-11. The cycle lasts until \<open>cycleStart (y + 1)\<close>.
\<close>

definition christmasDay :: "int \<Rightarrow> int" where
  "christmasDay y = DayFromYear (y + 1) - 7"

definition cycleStart :: "int \<Rightarrow> int" where
  "cycleStart y = (christmasDay y - 24) * msPerDay - 14 * msPerHour"

definition launchTime :: "int \<Rightarrow> int" where
  "launchTime y = christmasDay y * msPerDay - 14 * msPerHour"

definition missionEnd :: "int \<Rightarrow> int" where
  "missionEnd y = (christmasDay y + 1) * msPerDay + 11 * msPerHour"

text \<open>
  The local time label as the specification words it: the total minutes, normalised into
  \<open>[0, 1440)\<close>, as zero-padded \<open>HH:MM\<close>.
\<close>

definition normalizedLabel :: "int \<Rightarrow> rat \<Rightarrow> string" where
  "normalizedLabel now off =
     (let totalMinutes = of_int (HourFromTime now * 60) + of_int (MinFromTime now) + off * 60;
          wrapped = \<lfloor>totalMinutes\<rfloor> mod 1440
      in padStart 2 CHR ''0'' (int_toString (wrapped div 60)) @ '':'' @
         padStart 2 CHR ''0'' (int_toString (wrapped mod 60)))"

section \<open>The calendar\<close>

text \<open>
  A year \<open>1601 + 400 a + 100 b + 4 c + e\<close> with \<open>b \<le> 3\<close>, \<open>c \<le> 24\<close> and \<open>e \<le> 3\<close> starts
  \<open>146097 a + 36524 b + 1461 c + 365 e\<close> days after 1601-01-01, and is a leap year exactly
  when \<open>e = 3\<close> and it is not the last year of a century other than the fourth one.
\<close>

lemma year_shape_div:
  fixes a b c e :: int
  assumes "0 \<le> b" "b \<le> 3" "0 \<le> c" "c \<le> 24" "0 \<le> e" "e \<le> 3"
  shows "(400 * a + 100 * b + 4 * c + e) div 4 = 100 * a + 25 * b + c"
    and "(400 * a + 100 * b + 4 * c + e) div 100 = 4 * a + b"
    and "(400 * a + 100 * b + 4 * c + e) div 400 = a"
proof -
  show "(400 * a + 100 * b + 4 * c + e) div 4 = 100 * a + 25 * b + c"
    by (rule int_div_pos_eq [where r = e]) (use assms in auto)
  show "(400 * a + 100 * b + 4 * c + e) div 100 = 4 * a + b"
    by (rule int_div_pos_eq [where r = "4 * c + e"]) (use assms in auto)
  show "(400 * a + 100 * b + 4 * c + e) div 400 = a"
    by (rule int_div_pos_eq [where r = "100 * b + 4 * c + e"]) (use assms in auto)
qed

lemma DayFromYear_shape:
  fixes a b c e :: int
  assumes "0 \<le> b" "b \<le> 3" "0 \<le> c" "c \<le> 24" "0 \<le> e" "e \<le> 3"
  shows "DayFromYear (1601 + 400 * a + 100 * b + 4 * c + e)
           = 146097 * a + 36524 * b + 1461 * c + 365 * e - 134774"
proof -
  let ?k = "400 * a + 100 * b + 4 * c + e"
  have d4: "(?k - 368) div 4 = ?k div 4 - 92"
    by (rule int_div_pos_eq [where r = "?k mod 4"]) (auto simp: algebra_simps)
  have d100: "(?k - 300) div 100 = ?k div 100 - 3"
    by (rule int_div_pos_eq [where r = "?k mod 100"]) (auto simp: algebra_simps)
  have "DayFromYear (1601 + ?k) = 365 * (?k - 369) + (?k - 368) div 4 - (?k - 300) div 100 + ?k div 400"
    by (simp add: DayFromYear_def algebra_simps)
  then show ?thesis
    unfolding d4 d100 year_shape_div [OF assms] by (simp add: add.assoc)
qed

lemma DaysInYear_shape:
  fixes a b c e :: int
  assumes "0 \<le> b" "b \<le> 3" "0 \<le> c" "c \<le> 24" "0 \<le> e" "e \<le> 3"
  shows "DaysInYear (1601 + 400 * a + 100 * b + 4 * c + e)
           = (if e = 3 \<and> (c < 24 \<or> b = 3) then 366 else 365)"
proof -
  let ?y = "1601 + 400 * a + 100 * b + 4 * c + e"
  have y4: "?y = (e + 1) + 4 * (400 + 100 * a + 25 * b + c)" by simp
  have y100: "?y = (4 * c + e + 1) + 100 * (16 + 4 * a + b)" by simp
  have y400: "?y = (100 * b + 4 * c + e + 1) + 400 * (4 + a)" by simp
  have m4: "?y mod 4 = (e + 1) mod 4" by (subst y4) (rule mod_mult_self2)
  have m100: "?y mod 100 = (4 * c + e + 1) mod 100" by (subst y100) (rule mod_mult_self2)
  have m400: "?y mod 400 = (100 * b + 4 * c + e + 1) mod 400" by (subst y400) (rule mod_mult_self2)
  show ?thesis
  proof (cases "e = 3")
    case False
    with assms have "0 < e + 1" "e + 1 < 4" by auto
    then have "(e + 1) mod 4 = e + 1" by simp
    with \<open>0 < e + 1\<close> m4 have "?y mod 4 \<noteq> 0" by simp
    with False show ?thesis by (simp add: DaysInYear_def)
  next
    case e3: True
    then have z4: "?y mod 4 = 0" using m4 by simp
    show ?thesis
    proof (cases "c = 24")
      case False
      with assms e3 have "0 < 4 * c + e + 1" "4 * c + e + 1 < 100" by auto
      then have "(4 * c + e + 1) mod 100 = 4 * c + e + 1" by simp
      with \<open>0 < 4 * c + e + 1\<close> m100 have "?y mod 100 \<noteq> 0" by simp
      with z4 e3 False assms show ?thesis by (simp add: DaysInYear_def)
    next
      case c24: True
      with e3 m100 have z100: "?y mod 100 = 0" by simp
      show ?thesis
      proof (cases "b = 3")
        case True
        with c24 e3 m400 have "?y mod 400 = 0" by simp
        with z4 z100 e3 c24 True show ?thesis by (simp add: DaysInYear_def)
      next
        case False
        with assms c24 e3 have "0 < 100 * b + 4 * c + e + 1" "100 * b + 4 * c + e + 1 < 400" by auto
        then have "(100 * b + 4 * c + e + 1) mod 400 = 100 * b + 4 * c + e + 1" by simp
        with \<open>0 < 100 * b + 4 * c + e + 1\<close> m400 have "?y mod 400 \<noteq> 0" by simp
        with z4 z100 e3 c24 False show ?thesis by (simp add: DaysInYear_def)
      qed
    qed
  qed
qed

lemma year_decomp:
  fixes y :: int
  obtains a b c e :: int where
    "y = 1601 + 400 * a + 100 * b + 4 * c + e"
    "0 \<le> b" "b \<le> 3" "0 \<le> c" "c \<le> 24" "0 \<le> e" "e \<le> 3"
proof -
  define k where "k = y - 1601"
  define a where "a = k div 400"
  define r where "r = k mod 400"
  define b where "b = r div 100"
  define r' where "r' = r mod 100"
  define c where "c = r' div 4"
  define e where "e = r' mod 4"
  have r: "0 \<le> r" "r < 400" by (simp_all add: r_def)
  have r': "0 \<le> r'" "r' < 100" by (simp_all add: r'_def)
  have b: "0 \<le> b" "b \<le> 3" using r by (auto simp: b_def)
  have c: "0 \<le> c" "c \<le> 24" using r' by (auto simp: c_def)
  have e: "0 \<le> e" "e \<le> 3" by (auto simp: e_def)
  have "k = 400 * a + r" by (simp add: a_def r_def)
  moreover have "r = 100 * b + r'" by (simp add: b_def r'_def)
  moreover have "r' = 4 * c + e" by (simp add: c_def e_def)
  ultimately have "y = 1601 + 400 * a + 100 * b + 4 * c + e" by (simp add: k_def)
  then show ?thesis using that b c e by blast
qed

lemma DayFromYear_step: "DayFromYear (y + 1) = DayFromYear y + DaysInYear y"
proof -
  obtain a b c e where y: "y = 1601 + 400 * a + 100 * b + 4 * c + e"
    and *: "0 \<le> b" "b \<le> 3" "0 \<le> c" "c \<le> 24" "0 \<le> e" "e \<le> 3"
    by (rule year_decomp)
  have lhs: "DayFromYear y = 146097 * a + 36524 * b + 1461 * c + 365 * e - 134774"
    unfolding y by (rule DayFromYear_shape [OF *])
  have diy: "DaysInYear y = (if e = 3 \<and> (c < 24 \<or> b = 3) then 366 else 365)"
    unfolding y by (rule DaysInYear_shape [OF *])
  consider (e) "e < 3" | (c) "e = 3" "c < 24" | (b) "e = 3" "c = 24" "b < 3" | (a) "e = 3" "c = 24" "b = 3"
    using * by linarith
  then show ?thesis
  proof cases
    case e
    have "y + 1 = 1601 + 400 * a + 100 * b + 4 * c + (e + 1)" by (simp add: y)
    moreover have "DayFromYear (1601 + 400 * a + 100 * b + 4 * c + (e + 1))
        = 146097 * a + 36524 * b + 1461 * c + 365 * (e + 1) - 134774"
      by (rule DayFromYear_shape) (use * e in auto)
    ultimately show ?thesis using lhs diy e by simp
  next
    case c
    have "y + 1 = 1601 + 400 * a + 100 * b + 4 * (c + 1) + 0" by (simp add: y c)
    moreover have "DayFromYear (1601 + 400 * a + 100 * b + 4 * (c + 1) + 0)
        = 146097 * a + 36524 * b + 1461 * (c + 1) + 365 * 0 - 134774"
      by (rule DayFromYear_shape) (use * c in auto)
    ultimately show ?thesis using lhs diy c by simp
  next
    case b
    have "y + 1 = 1601 + 400 * a + 100 * (b + 1) + 4 * 0 + 0" by (simp add: y b)
    moreover have "DayFromYear (1601 + 400 * a + 100 * (b + 1) + 4 * 0 + 0)
        = 146097 * a + 36524 * (b + 1) + 1461 * 0 + 365 * 0 - 134774"
      by (rule DayFromYear_shape) (use * b in auto)
    ultimately show ?thesis using lhs diy b by simp
  next
    case a
    have "y + 1 = 1601 + 400 * (a + 1) + 100 * 0 + 4 * 0 + 0" by (simp add: y a)
    moreover have "DayFromYear (1601 + 400 * (a + 1) + 100 * 0 + 4 * 0 + 0)
        = 146097 * (a + 1) + 36524 * 0 + 1461 * 0 + 365 * 0 - 134774"
      by (rule DayFromYear_shape) auto
    ultimately show ?thesis using lhs diy a by simp
  qed
qed


lemma YearFromDay_decomp:
  obtains a b c e r :: int where
    "d + 134774 = 146097 * a + 36524 * b + 1461 * c + 365 * e + r"
    "0 \<le> b" "b \<le> 3" "0 \<le> c" "c \<le> 24" "0 \<le> e" "e \<le> 3" "0 \<le> r"
    "r < (if e = 3 \<and> (c < 24 \<or> b = 3) then 366 else 365)"
    "YearFromDay d = 1601 + 400 * a + 100 * b + 4 * c + e"
proof -
  define n where "n = d + 134774"
  define a where "a = n div 146097"
  define r400 where "r400 = n mod 146097"
  define b where "b = min 3 (r400 div 36524)"
  define r100 where "r100 = r400 - b * 36524"
  define c where "c = r100 div 1461"
  define r4 where "r4 = r100 mod 1461"
  define e where "e = min 3 (r4 div 365)"
  define r where "r = r4 - 365 * e"
  have r400: "0 \<le> r400" "r400 < 146097" by (simp_all add: r400_def)
  have n: "n = 146097 * a + r400" by (simp add: a_def r400_def)
  have b: "0 \<le> b" "b \<le> 3" using r400 by (simp_all add: b_def)
  define q where "q = r400 div 36524"
  have q: "r400 = 36524 * q + r400 mod 36524" by (simp add: q_def)
  have qm: "0 \<le> r400 mod 36524" "r400 mod 36524 < 36524" by simp_all
  have bq: "b = 3 \<and> 3 \<le> q \<or> b < 3 \<and> b = q" by (auto simp: b_def q_def min_def)
  have r100: "0 \<le> r100" "r100 \<le> 36524" "b < 3 \<Longrightarrow> r100 < 36524"
    using r400 q qm bq unfolding r100_def by linarith+
  have c: "0 \<le> c" "c \<le> 24" using r100 unfolding c_def by auto
  have r4: "0 \<le> r4" "r4 < 1461" by (simp_all add: r4_def)
  have r100': "r100 = 1461 * c + r4" by (simp add: c_def r4_def)
  have e: "0 \<le> e" "e \<le> 3" using r4 by (simp_all add: e_def)
  define p where "p = r4 div 365"
  have p: "r4 = 365 * p + r4 mod 365" by (simp add: p_def)
  have pm: "0 \<le> r4 mod 365" "r4 mod 365 < 365" by simp_all
  have ep: "e = 3 \<and> 3 \<le> p \<or> e < 3 \<and> e = p" by (auto simp: e_def p_def min_def)
  have r: "0 \<le> r" "e < 3 \<Longrightarrow> r < 365" "r \<le> 365"
    using r4 p pm ep unfolding r_def by linarith+
  have leap: "r < (if e = 3 \<and> (c < 24 \<or> b = 3) then 366 else 365)"
  proof (cases "e = 3 \<and> (c < 24 \<or> b = 3)")
    case True
    then show ?thesis using r by simp
  next
    case False
    show ?thesis
    proof (cases "e = 3")
      case True
      with False c b have "c = 24" "b < 3" by auto
      with r100 r100' have "r4 < 1460" by simp
      with True False show ?thesis by (simp add: r_def)
    next
      case False
      with e r show ?thesis by simp
    qed
  qed
  have y: "YearFromDay d = 1601 + 400 * a + 100 * b + 4 * c + e"
    unfolding YearFromDay_def Let_def a_def b_def c_def e_def r4_def r100_def r400_def n_def q_def p_def
    by (simp add: mult.commute)
  have "d + 134774 = 146097 * a + 36524 * b + 1461 * c + 365 * e + r"
    using n r100' unfolding r_def r100_def n_def by simp
  then show ?thesis using that b c e r(1) leap y by blast
qed

lemma YearFromDay_bounds:
  "DayFromYear (YearFromDay d) \<le> d \<and> d < DayFromYear (YearFromDay d + 1)"
proof -
  obtain a b c e r where n: "d + 134774 = 146097 * a + 36524 * b + 1461 * c + 365 * e + r"
    and *: "0 \<le> b" "b \<le> 3" "0 \<le> c" "c \<le> 24" "0 \<le> e" "e \<le> 3"
    and r: "0 \<le> r" "r < (if e = 3 \<and> (c < 24 \<or> b = 3) then 366 else 365)"
    and y: "YearFromDay d = 1601 + 400 * a + 100 * b + 4 * c + e"
    by (rule YearFromDay_decomp [of d])
  have "DayFromYear (YearFromDay d) = d - r"
    unfolding y DayFromYear_shape [OF *] using n by simp
  moreover have "DaysInYear (YearFromDay d) = (if e = 3 \<and> (c < 24 \<or> b = 3) then 366 else 365)"
    unfolding y by (rule DaysInYear_shape [OF *])
  ultimately show ?thesis
    unfolding DayFromYear_step using r by simp
qed

lemma DaysInYear_range: "365 \<le> DaysInYear y \<and> DaysInYear y \<le> 366"
  by (simp add: DaysInYear_def)

lemma DayFromYear_add: "DayFromYear y + 365 * int n \<le> DayFromYear (y + int n)"
proof (induction n)
  case 0
  then show ?case by simp
next
  case (Suc n)
  have "y + int (Suc n) = (y + int n) + 1" by simp
  then have "DayFromYear (y + int (Suc n)) = DayFromYear (y + int n) + DaysInYear (y + int n)"
    using DayFromYear_step [of "y + int n"] by presburger
  with Suc DaysInYear_range [of "y + int n"] show ?case by simp
qed

lemma DayFromYear_mono: "y \<le> y' \<Longrightarrow> DayFromYear y \<le> DayFromYear y'"
  using DayFromYear_add [of y "nat (y' - y)"] by simp

lemma DayFromYear_less: "y < y' \<Longrightarrow> DayFromYear y + 365 \<le> DayFromYear y'"
proof -
  assume "y < y'"
  then have "DayFromYear (y + 1) \<le> DayFromYear y'" by (intro DayFromYear_mono) simp
  with DayFromYear_step [of y] DaysInYear_range [of y] show ?thesis by simp
qed

lemma YearFromDay_unique:
  assumes "DayFromYear y \<le> d" "d < DayFromYear (y + 1)"
  shows "YearFromDay d = y"
proof (rule ccontr)
  assume ne: "YearFromDay d \<noteq> y"
  note b = YearFromDay_bounds [of d]
  show False
  proof (cases "YearFromDay d < y")
    case True
    then have "DayFromYear (YearFromDay d + 1) \<le> DayFromYear y" by (intro DayFromYear_mono) simp
    with b assms show False by simp
  next
    case False
    with ne have "DayFromYear (y + 1) \<le> DayFromYear (YearFromDay d)" by (intro DayFromYear_mono) simp
    with b assms show False by simp
  qed
qed

text \<open>
  \<open>YearFromDay\<close> is the year of the ECMAScript specification: the largest year that
  starts on or before the day.
\<close>

lemma YearFromDay_largest:
  "DayFromYear (YearFromDay d) \<le> d \<and> (\<forall>y. DayFromYear y \<le> d \<longrightarrow> y \<le> YearFromDay d)"
proof (intro conjI allI impI)
  show "DayFromYear (YearFromDay d) \<le> d" using YearFromDay_bounds [of d] by simp
next
  fix y assume y: "DayFromYear y \<le> d"
  show "y \<le> YearFromDay d"
  proof (rule ccontr)
    assume "\<not> y \<le> YearFromDay d"
    then have "DayFromYear (YearFromDay d + 1) \<le> DayFromYear y" by (intro DayFromYear_mono) simp
    with y YearFromDay_bounds [of d] show False by simp
  qed
qed

section \<open>The remainder operator\<close>

lemma trunc_of_int_div:
  assumes "0 < d"
  shows "trunc (of_int n / of_int d) = (if 0 \<le> n then n div d else - ((- n) div d))"
proof (cases "0 \<le> n")
  case True
  with assms have "(0::rat) \<le> of_int n / of_int d" by simp
  with True show ?thesis by (simp add: trunc_def floor_divide_of_int_eq)
next
  case False
  with assms have "of_int n / (of_int d :: rat) < 0" by (simp add: divide_neg_pos)
  moreover have "\<lceil>of_int n / (of_int d :: rat)\<rceil> = - \<lfloor>of_int (- n) / (of_int d :: rat)\<rfloor>"
    by (simp add: ceiling_def)
  ultimately show ?thesis using False by (simp add: trunc_def floor_divide_of_int_eq del: of_int_minus)
qed

lemma js_rem_int_pos:
  assumes "0 < d"
  shows "js_rem_int n d = (if 0 \<le> n then n mod d else - ((- n) mod d))"
proof (cases "0 \<le> n")
  case True
  then show ?thesis
    unfolding js_rem_int_def trunc_of_int_div [OF assms] by (simp add: minus_mult_div_eq_mod)
next
  case False
  have "- n - d * (- n div d) = (- n) mod d" by (rule minus_mult_div_eq_mod)
  then have "n - d * (- (- n div d)) = - ((- n) mod d)" by simp
  with False show ?thesis
    unfolding js_rem_int_def trunc_of_int_div [OF assms] by simp
qed

lemma js_rem_int_sgn:
  assumes "0 < d"
  shows "js_rem_int n d = sgn n * (\<bar>n\<bar> mod d)"
proof (cases "0 \<le> n")
  case True
  then show ?thesis
    unfolding js_rem_int_pos [OF assms] by (cases "n = 0") (simp_all add: sgn_if)
next
  case False
  then show ?thesis
    unfolding js_rem_int_pos [OF assms] by (simp add: sgn_if)
qed

lemma js_rem_int_bounds:
  assumes "0 < d"
  shows "- d < js_rem_int n d" and "js_rem_int n d < d"
proof -
  have "0 \<le> n mod d" "n mod d < d" "0 \<le> (- n) mod d" "(- n) mod d < d"
    using assms by simp_all
  then show "- d < js_rem_int n d" and "js_rem_int n d < d"
    unfolding js_rem_int_pos [OF assms] using assms by (cases "0 \<le> n"; simp; linarith)+
qed

section \<open>Rounding to binary64\<close>

text \<open>
  \<open>roundTiesToEven\<close> yields a nearest integer, the even one on a tie; \<open>exponentOf\<close> yields
  the binary exponent; so \<open>binary64 x\<close> is a multiple \<open>m * 2^(e-52)\<close> of the spacing at \<open>x\<close>
  with a significand \<open>m\<close> of at most 53 bits (normalised, \<open>2^52 \<le> m\<close>, outside the subnormal
  range; \<open>m = 2^53\<close> is the first number of the next binade), it is at most half a spacing
  away from \<open>x\<close>, and \<open>m\<close> is even when it is exactly half a spacing away.
\<close>

lemma roundTiesToEven_nearest: "\<bar>of_int (roundTiesToEven q) - q\<bar> \<le> 1 / 2"
proof -
  have "of_int \<lfloor>q\<rfloor> \<le> q" "q < of_int \<lfloor>q\<rfloor> + 1" by linarith+
  then show ?thesis by (auto simp: roundTiesToEven_def Let_def)
qed

lemma roundTiesToEven_tie:
  "\<bar>of_int (roundTiesToEven q) - q\<bar> = 1 / 2 \<Longrightarrow> even (roundTiesToEven q)"
proof -
  have "of_int \<lfloor>q\<rfloor> \<le> q" "q < of_int \<lfloor>q\<rfloor> + 1" by linarith+
  then show "\<bar>of_int (roundTiesToEven q) - q\<bar> = 1 / 2 \<Longrightarrow> even (roundTiesToEven q)"
    by (auto simp: roundTiesToEven_def Let_def split: if_splits)
qed

lemma bitLength_pos: "0 < n \<Longrightarrow> 0 < bitLength n"
proof (induction n rule: bitLength.induct)
  case (1 n)
  then show ?case
    by (cases "0 < n div 2") (simp_all add: bitLength.simps [of n] bitLength.simps [of 0])
qed

lemma bitLength_bounds:
  "0 < n \<Longrightarrow> 2 ^ nat (bitLength n - 1) \<le> n \<and> n < 2 ^ nat (bitLength n)"
proof (induction n rule: bitLength.induct)
  case (1 n)
  show ?case
  proof (cases "0 < n div 2")
    case False
    with 1(2) have "n = 1" by linarith
    then show ?thesis by (simp add: bitLength.simps [of 1] bitLength.simps [of 0])
  next
    case True
    let ?b = "bitLength (n div 2)"
    from True 1 have ih: "2 ^ nat (?b - 1) \<le> n div 2" "n div 2 < 2 ^ nat ?b" by simp_all
    from bitLength_pos [OF True] have bp: "0 < ?b" .
    have bl: "bitLength n = 1 + ?b" using 1(2) by (simp add: bitLength.simps [of n])
    from bp have e1: "nat (1 + ?b - 1) = Suc (nat (?b - 1))" by simp
    from bp have e2: "nat (1 + ?b) = Suc (nat ?b)" by simp
    have "2 * (n div 2) \<le> n" "n < 2 * (n div 2) + 2" by linarith+
    with ih have "(2::int) * 2 ^ nat (?b - 1) \<le> n" "n < 2 * 2 ^ nat ?b" by linarith+
    then show ?thesis unfolding bl e1 e2 by simp
  qed
qed

lemma exponentOf_bounds:
  assumes "0 < a"
  shows "pow2 (exponentOf a) \<le> a \<and> a < pow2 (exponentOf a + 1)"
proof (cases "1 \<le> a")
  case True
  let ?n = "\<lfloor>a\<rfloor>"
  from True have n: "0 < ?n" by linarith
  let ?b = "bitLength ?n"
  from bitLength_pos [OF n] have bp: "0 < ?b" .
  from bitLength_bounds [OF n] have b: "2 ^ nat (?b - 1) \<le> ?n" "?n < 2 ^ nat ?b" by simp_all
  have e: "exponentOf a = ?b - 1" using True by (simp add: exponentOf_def)
  have p1: "pow2 (?b - 1) = 2 ^ nat (?b - 1)" using bp by (simp add: pow2_def)
  have p2: "pow2 (?b - 1 + 1) = 2 ^ nat ?b" using bp by (simp add: pow2_def)
  from b(1) have "(of_int (2 ^ nat (?b - 1)) :: rat) \<le> of_int ?n" by (simp only: of_int_le_iff)
  then have l: "(2 ^ nat (?b - 1) :: rat) \<le> a" by (simp add: le_floor_iff) 
  from b(2) have "?n + 1 \<le> 2 ^ nat ?b" by simp
  then have "(of_int (?n + 1) :: rat) \<le> of_int (2 ^ nat ?b)" by (simp only: of_int_le_iff)
  moreover have "a < of_int (?n + 1)" by linarith
  ultimately have u: "a < (2 ^ nat ?b :: rat)" by simp
  from l u show ?thesis unfolding e p1 p2 by simp
next
  case False
  with assms have a: "0 < a" "a < 1" by simp_all
  let ?c = "\<lceil>1 / a\<rceil> - 1"
  from a have "1 < 1 / a" by (simp add: field_simps)
  then have c: "0 < ?c" by linarith
  let ?k = "bitLength ?c"
  from bitLength_pos [OF c] have kp: "0 < ?k" .
  from bitLength_bounds [OF c] have b: "2 ^ nat (?k - 1) \<le> ?c" "?c < 2 ^ nat ?k" by simp_all
  have e: "exponentOf a = - ?k" using False by (simp add: exponentOf_def)
  have p1: "pow2 (- ?k) = 1 / 2 ^ nat ?k" using kp by (simp add: pow2_def)
  have p2: "pow2 (- ?k + 1) = 1 / 2 ^ nat (?k - 1)" using kp by (auto simp: pow2_def)
  have "(of_int ?c :: rat) < 1 / a" by linarith
  moreover from b(1) have "(of_int (2 ^ nat (?k - 1)) :: rat) \<le> of_int ?c" by (simp only: of_int_le_iff)
  ultimately have "(2 ^ nat (?k - 1) :: rat) < 1 / a" by simp
  then have u: "a < 1 / 2 ^ nat (?k - 1)" using a(1) by (simp add: field_simps)
  from b(2) have "\<lceil>1 / a\<rceil> \<le> 2 ^ nat ?k" by simp
  then have "1 / a \<le> of_int (2 ^ nat ?k)" by (simp only: ceiling_le_iff)
  then have "1 / a \<le> (2 ^ nat ?k :: rat)" by simp
  then have l: "1 / 2 ^ nat ?k \<le> a" using a(1) by (simp add: field_simps)
  from l u show ?thesis unfolding e p1 p2 by simp
qed

lemma pow2_powi: "pow2 e = 2 powi e"
  by (simp add: pow2_def power_int_def field_simps)

lemma pow2_pos: "0 < pow2 e"
  by (simp add: pow2_powi)

lemma pow2_add: "pow2 (i + j) = pow2 i * pow2 j"
  by (simp add: pow2_powi power_int_add)

lemma pow2_numeral: "pow2 53 = 2 ^ 53" "pow2 52 = 2 ^ 52"
  by (simp_all add: pow2_def)

lemma pow2_mono: "i \<le> j \<Longrightarrow> pow2 i \<le> pow2 j"
  by (simp add: pow2_powi power_int_increasing)

lemma roundTiesToEven_le: "q \<le> of_int n \<Longrightarrow> roundTiesToEven q \<le> n"
proof -
  assume q: "q \<le> of_int n"
  have f: "of_int \<lfloor>q\<rfloor> \<le> q" "q < of_int \<lfloor>q\<rfloor> + 1" by linarith+
  from q have "\<lfloor>q\<rfloor> \<le> n" by (simp add: floor_le_iff)
  moreover have "\<lfloor>q\<rfloor> = n \<Longrightarrow> q = of_int n" using q f by linarith
  ultimately show ?thesis
    by (cases "\<lfloor>q\<rfloor> = n") (auto simp: roundTiesToEven_def Let_def)
qed

lemma roundTiesToEven_ge: "of_int n \<le> q \<Longrightarrow> n \<le> roundTiesToEven q"
proof -
  assume q: "of_int n \<le> q"
  then have "n \<le> \<lfloor>q\<rfloor>" by (simp add: le_floor_iff)
  then show ?thesis by (auto simp: roundTiesToEven_def Let_def)
qed

lemma binary64_correctly_rounded:
  assumes "x \<noteq> 0"
  defines "e \<equiv> max (exponentOf \<bar>x\<bar>) (- 1022)"
  shows "\<exists>m. binary64 x = sgn x * of_int m * pow2 (e - 52) \<and>
             0 \<le> m \<and> m \<le> 2 ^ 53 \<and> (- 1022 \<le> exponentOf \<bar>x\<bar> \<longrightarrow> 2 ^ 52 \<le> m) \<and>
             \<bar>of_int m * pow2 (e - 52) - \<bar>x\<bar>\<bar> \<le> pow2 (e - 52) / 2 \<and>
             (\<bar>of_int m * pow2 (e - 52) - \<bar>x\<bar>\<bar> = pow2 (e - 52) / 2 \<longrightarrow> even m)"
proof -
  define a where "a = \<bar>x\<bar>"
  define ulp where "ulp = pow2 (e - 52)"
  define m where "m = roundTiesToEven (a / ulp)"
  from assms(1) have a: "0 < a" by (simp add: a_def)
  have up: "0 < ulp" by (simp add: ulp_def pow2_pos)
  have b: "binary64 x = sgn x * of_int m * ulp"
    using assms(1) by (simp add: binary64_def Let_def m_def ulp_def a_def e_def)
  from exponentOf_bounds [OF a] have eb: "pow2 (exponentOf a) \<le> a" "a < pow2 (exponentOf a + 1)"
    by simp_all
  have ee: "exponentOf a \<le> e" by (simp add: e_def a_def)
  have "pow2 (exponentOf a + 1) \<le> pow2 (e + 1)" using ee by (simp add: pow2_mono)
  with eb(2) have "a < pow2 (e + 1)" by simp
  also have "pow2 (e + 1) = pow2 53 * ulp"
  proof -
    have "pow2 (53 + (e - 52)) = pow2 53 * ulp" unfolding ulp_def by (rule pow2_add)
    moreover have "53 + (e - 52) = e + 1" by simp
    ultimately show ?thesis by simp
  qed
  finally have "a / ulp < 2 ^ 53" using up by (simp add: pow2_numeral field_simps)
  then have "a / ulp \<le> of_int (2 ^ 53)" by simp
  then have m_le: "m \<le> 2 ^ 53" unfolding m_def by (rule roundTiesToEven_le)
  have "of_int 0 \<le> a / ulp" using a up by simp
  then have m_ge: "0 \<le> m" unfolding m_def by (rule roundTiesToEven_ge)
  have m_norm: "2 ^ 52 \<le> m" if "- 1022 \<le> exponentOf \<bar>x\<bar>"
  proof -
    from that have "e = exponentOf a" by (simp add: e_def a_def)
    with eb(1) have "pow2 e \<le> a" by simp
    moreover have "pow2 e = pow2 52 * ulp"
    proof -
      have "pow2 (52 + (e - 52)) = pow2 52 * ulp" unfolding ulp_def by (rule pow2_add)
      moreover have "52 + (e - 52) = e" by simp
      ultimately show ?thesis by simp
    qed
    ultimately have "2 ^ 52 \<le> a / ulp" using up by (simp add: pow2_numeral field_simps)
    then have "of_int (2 ^ 52) \<le> a / ulp" by simp
    then show ?thesis unfolding m_def by (rule roundTiesToEven_ge)
  qed
  have d: "of_int m * ulp - a = (of_int m - a / ulp) * ulp"
    using up by (simp add: field_simps)
  have ad: "\<bar>of_int m * ulp - a\<bar> = \<bar>of_int m - a / ulp\<bar> * ulp"
    unfolding d using up by (simp add: abs_mult)
  have near: "\<bar>of_int m * ulp - a\<bar> \<le> ulp / 2"
    unfolding ad using roundTiesToEven_nearest [of "a / ulp"] up
    by (simp add: m_def field_simps)
  have tie: "even m" if "\<bar>of_int m * ulp - a\<bar> = ulp / 2"
  proof -
    from that have "\<bar>of_int m - a / ulp\<bar> * ulp = (1 / 2) * ulp" unfolding ad by simp
    with up have "\<bar>of_int m - a / ulp\<bar> = 1 / 2" by simp
    then show ?thesis unfolding m_def by (rule roundTiesToEven_tie)
  qed
  from b m_ge m_le m_norm near tie show ?thesis
    unfolding ulp_def a_def by blast
qed


section \<open>December in the calendar\<close>

text \<open>
  A day lies in December exactly when it is one of the last 31 days of its year, and its
  day of the month is then its distance to the end of the year.
\<close>

lemma Day_in_year:
  "DayFromYear (YearFromTime t) \<le> Day t" "Day t < DayFromYear (YearFromTime t + 1)"
  using YearFromDay_bounds [of "Day t"] by (simp_all add: YearFromTime_def)

lemma InLeapYear_eq: "InLeapYear t = DaysInYear (YearFromTime t) - 365"
  using DaysInYear_range [of "YearFromTime t"] by (simp add: InLeapYear_def)

lemma DayWithinYear_eq:
  "DayWithinYear t = Day t - DayFromYear (YearFromTime t + 1) + 365 + InLeapYear t"
  by (simp add: DayWithinYear_def InLeapYear_eq DayFromYear_step)

lemma InLeapYear_range: "0 \<le> InLeapYear t" "InLeapYear t \<le> 1"
  by (simp_all add: InLeapYear_def)

lemma MonthFromTime_December:
  "MonthFromTime t = 11 \<longleftrightarrow> DayFromYear (YearFromTime t + 1) - 31 \<le> Day t"
proof -
  have "MonthFromTime t = 11 \<longleftrightarrow> 334 + InLeapYear t \<le> DayWithinYear t"
    using InLeapYear_range [of t] unfolding MonthFromTime_def Let_def by (simp split: if_splits)
  then show ?thesis unfolding DayWithinYear_eq by linarith
qed

lemma DateFromTime_December:
  assumes "MonthFromTime t = 11"
  shows "DateFromTime t = Day t - DayFromYear (YearFromTime t + 1) + 32"
proof -
  have "DateFromTime t = DayWithinYear t - 333 - InLeapYear t"
    using assms by (simp add: DateFromTime_def)
  then show ?thesis unfolding DayWithinYear_eq by linarith
qed

lemma isDecember25_iff:
  "isDecember25 (Some t) \<longleftrightarrow> Day t = DayFromYear (YearFromTime t + 1) - 7"
  using MonthFromTime_December [of t] DateFromTime_December [of t]
  by (auto simp: isDecember25_def)

lemma beforeDecember25_iff:
  "beforeDecember25 (Some t) \<longleftrightarrow>
     DayFromYear (YearFromTime t + 1) - 31 \<le> Day t \<and> Day t < DayFromYear (YearFromTime t + 1) - 7"
  using MonthFromTime_December [of t] DateFromTime_December [of t]
  by (auto simp: beforeDecember25_def)

lemma afterDecember25_iff:
  "afterDecember25 (Some t) \<longleftrightarrow> DayFromYear (YearFromTime t + 1) - 7 < Day t"
  using MonthFromTime_December [of t] DateFromTime_December [of t]
  by (auto simp: afterDecember25_def)

lemma YearFromTime_unique:
  "DayFromYear y \<le> Day t \<Longrightarrow> Day t < DayFromYear (y + 1) \<Longrightarrow> YearFromTime t = y"
  unfolding YearFromTime_def by (rule YearFromDay_unique)

lemma year_end_cases:
  assumes "Day t \<le> Day t'"
  shows "DayFromYear (YearFromTime t + 1) = DayFromYear (YearFromTime t' + 1)
         \<or> DayFromYear (YearFromTime t + 1) \<le> Day t'"
proof (cases "YearFromTime t = YearFromTime t'")
  case True
  then show ?thesis by simp
next
  case False
  have "\<not> YearFromTime t' < YearFromTime t"
  proof
    assume "YearFromTime t' < YearFromTime t"
    then have "DayFromYear (YearFromTime t' + 1) \<le> DayFromYear (YearFromTime t)"
      by (intro DayFromYear_mono) simp
    with Day_in_year [of t] Day_in_year [of t'] assms show False by linarith
  qed
  with False have "YearFromTime t + 1 \<le> YearFromTime t'" by simp
  then have "DayFromYear (YearFromTime t + 1) \<le> DayFromYear (YearFromTime t')"
    by (rule DayFromYear_mono)
  with Day_in_year [of t'] show ?thesis by linarith
qed

lemma christmasDay_year:
  assumes "Day t = christmasDay y + k" "- 300 \<le> k" "k < 7"
  shows "YearFromTime t = y"
proof (rule YearFromTime_unique)
  have "DayFromYear (y + 1) = DayFromYear y + DaysInYear y" by (rule DayFromYear_step)
  with DaysInYear_range [of y] assms show "DayFromYear y \<le> Day t" "Day t < DayFromYear (y + 1)"
    by (simp_all add: christmasDay_def)
qed

lemma isDecember25_christmasDay:
  "isDecember25 (Some t) \<longleftrightarrow> (\<exists>y. Day t = christmasDay y)"
proof
  assume "isDecember25 (Some t)"
  then have "Day t = christmasDay (YearFromTime t)"
    by (simp add: isDecember25_iff christmasDay_def)
  then show "\<exists>y. Day t = christmasDay y" ..
next
  assume "\<exists>y. Day t = christmasDay y"
  then obtain y where y: "Day t = christmasDay y" ..
  then have "YearFromTime t = y" using christmasDay_year [of t y 0] by simp
  with y show "isDecember25 (Some t)" by (simp add: isDecember25_iff christmasDay_def)
qed

section \<open>Hours, minutes and days of a time value\<close>

lemma HourFromTime_eq: "HourFromTime t = (t mod msPerDay) div msPerHour"
proof -
  define d where "d = t div 86400000"
  define r where "r = t mod 86400000"
  have r: "0 \<le> r" "r < 86400000" by (simp_all add: r_def)
  have t: "t = r + 3600000 * (24 * d)" by (simp add: d_def r_def)
  have "(r + 3600000 * (24 * d)) div 3600000 = 24 * d + r div 3600000"
    by (rule div_mult_self2) simp
  then have "t div 3600000 = r div 3600000 + 24 * d"
    using t by simp
  moreover have "0 \<le> r div 3600000" "r div 3600000 < 24" using r by auto
  ultimately have "(t div 3600000) mod 24 = r div 3600000" by simp
  then show ?thesis by (simp add: HourFromTime_def msPerHour_def msPerDay_def r_def)
qed

lemma MinFromTime_eq: "MinFromTime t = ((t mod msPerDay) div msPerMinute) mod 60"
proof -
  define d where "d = t div 86400000"
  define r where "r = t mod 86400000"
  have t: "t = r + 60000 * (1440 * d)" by (simp add: d_def r_def)
  have "(r + 60000 * (1440 * d)) div 60000 = 1440 * d + r div 60000"
    by (rule div_mult_self2) simp
  then have "t div 60000 = r div 60000 + 60 * (24 * d)"
    using t by simp
  then have "(t div 60000) mod 60 = (r div 60000) mod 60" by (simp only: mod_mult_self2)
  then show ?thesis by (simp add: MinFromTime_def msPerMinute_def msPerDay_def r_def)
qed

lemma minutesUntilMidnight_eq:
  "minutesUntilMidnight t = 1441 - (t mod msPerDay) div msPerMinute"
proof -
  define r where "r = t mod 86400000"
  define q where "q = r div 60000"
  define a where "a = q div 60"
  define b where "b = q mod 60"
  have "r div (60000 * 60) = (r div 60000) div 60" by (rule zdiv_zmult2_eq) simp
  then have ra: "r div 3600000 = a" by (simp add: q_def a_def)
  have qab: "q = 60 * a + b" by (simp add: a_def b_def)
  have "(24 - a) * 60 - b + 1 = 1441 - q" unfolding qab by (simp add: algebra_simps)
  then have "(24 - r div 3600000) * 60 - q mod 60 + 1 = 1441 - q" by (simp add: ra b_def)
  then show ?thesis
    unfolding minutesUntilMidnight_def HourFromTime_eq MinFromTime_eq
    by (simp add: msPerDay_def msPerHour_def msPerMinute_def r_def q_def)
qed

lemma minutesUntilMidnight_range: "2 \<le> minutesUntilMidnight t \<and> minutesUntilMidnight t \<le> 1441"
proof -
  define r where "r = t mod 86400000"
  have "0 \<le> r" "r < 86400000" by (simp_all add: r_def)
  then have "0 \<le> r div 60000" "r div 60000 < 1440" by auto
  then show ?thesis unfolding minutesUntilMidnight_eq by (simp add: msPerDay_def msPerMinute_def r_def)
qed

lemma minutesUntilMidnight_mono:
  assumes "Day t = Day t'" "t \<le> t'"
  shows "minutesUntilMidnight t' \<le> minutesUntilMidnight t"
proof -
  have "t = 86400000 * Day t + t mod 86400000" "t' = 86400000 * Day t' + t' mod 86400000"
    by (simp_all add: Day_def msPerDay_def)
  with assms have "t mod 86400000 \<le> t' mod 86400000" by linarith
  then have "(t mod 86400000) div 60000 \<le> (t' mod 86400000) div 60000" by (rule zdiv_mono1) simp
  then show ?thesis unfolding minutesUntilMidnight_eq by (simp add: msPerDay_def msPerMinute_def)
qed

lemma Day_eqI: "d * msPerDay \<le> t \<Longrightarrow> t < (d + 1) * msPerDay \<Longrightarrow> Day t = d"
  unfolding Day_def msPerDay_def by (rule int_div_pos_eq [where r = "t - d * 86400000"]) auto

lemma Day_bounds: "Day t * msPerDay \<le> t" "t < (Day t + 1) * msPerDay"
proof -
  define d where "d = t div 86400000"
  define r where "r = t mod 86400000"
  have f: "t = 86400000 * d + r" "0 \<le> r" "r < 86400000"
    by (simp_all add: d_def r_def)
  show "Day t * msPerDay \<le> t"
    unfolding Day_def msPerDay_def d_def [symmetric] using f by simp
  show "t < (Day t + 1) * msPerDay"
    unfolding Day_def msPerDay_def d_def [symmetric] using f by simp
qed

lemma Day_mono: "t \<le> t' \<Longrightarrow> Day t \<le> Day t'"
  unfolding Day_def msPerDay_def by (rule zdiv_mono1) simp_all

lemma Day_near:
  assumes "t \<le> t'" "t' \<le> t + 90000000"
  shows "Day t \<le> Day t'" "Day t' \<le> Day t + 2"
proof -
  show "Day t \<le> Day t'" using assms(1) by (rule Day_mono)
  have b: "Day t' * 86400000 \<le> t'" "t < (Day t + 1) * 86400000"
    using Day_bounds [of t'] Day_bounds [of t] by (simp_all add: msPerDay_def)
  show "Day t' \<le> Day t + 2"
  proof (rule ccontr)
    assume "\<not> Day t' \<le> Day t + 2"
    then have "Day t + 3 \<le> Day t'" by simp
    then have "(Day t + 3) * 86400000 \<le> Day t' * 86400000" by simp
    with b assms show False by simp
  qed
qed

lemma Day_less_iff: "Day t < d \<longleftrightarrow> t < d * msPerDay"
proof
  assume "Day t < d"
  then have "Day t + 1 \<le> d" by simp
  then have "(Day t + 1) * msPerDay \<le> d * msPerDay" by (simp add: msPerDay_def)
  with Day_bounds(2) [of t] show "t < d * msPerDay" by linarith
next
  assume a: "t < d * msPerDay"
  show "Day t < d"
  proof (rule ccontr)
    assume "\<not> Day t < d"
    then have "d * msPerDay \<le> Day t * msPerDay" by (simp add: msPerDay_def)
    with Day_bounds(1) [of t] a show False by linarith
  qed
qed

lemma Day_ge_iff: "d \<le> Day t \<longleftrightarrow> d * msPerDay \<le> t"
  using Day_less_iff [of t d] by linarith

lemma Day_eq_iff: "Day t = d \<longleftrightarrow> d * msPerDay \<le> t \<and> t < (d + 1) * msPerDay"
  using Day_less_iff [of t "d + 1"] Day_ge_iff [of d t] by linarith

section \<open>Christmas days\<close>

text \<open>
  Successive Christmas days are at least 365 days apart, so a day between two of them is
  a December 25 only if it is the first one. The last Christmas day within the range of
  time values is the one of the year 275759.
\<close>

lemma christmasDay_less: "y < y' \<Longrightarrow> christmasDay y + 365 \<le> christmasDay y'"
  unfolding christmasDay_def using DayFromYear_less [of "y + 1" "y' + 1"] by simp

lemma christmasDay_mono: "y \<le> y' \<Longrightarrow> christmasDay y \<le> christmasDay y'"
  unfolding christmasDay_def using DayFromYear_mono [of "y + 1" "y' + 1"] by simp

lemma christmasDay_values:
  "christmasDay 2025 = 20447"
  "christmasDay (- 271821) = - 99999751"
  "christmasDay 275759 = 99999737"
  "christmasDay 275760 = 100000103"
  by (simp_all add: christmasDay_def DayFromYear_def)

lemma christmasDay_edge:
  assumes "christmasDay y \<le> 100000000"
  shows "christmasDay y \<le> 99999737"
proof (cases "y \<le> 275759")
  case True
  then have "christmasDay y \<le> christmasDay 275759" by (rule christmasDay_mono)
  then show ?thesis by (simp add: christmasDay_values)
next
  case False
  then have "christmasDay 275760 \<le> christmasDay y" by (intro christmasDay_mono) simp
  with assms show ?thesis by (simp add: christmasDay_values)
qed

lemma isDecember25_between:
  assumes "christmasDay y - 300 \<le> Day t" "Day t < christmasDay (y + 1)"
  shows "isDecember25 (Some t) \<longleftrightarrow> Day t = christmasDay y"
proof
  assume "Day t = christmasDay y"
  then show "isDecember25 (Some t)" using isDecember25_christmasDay by blast
next
  assume "isDecember25 (Some t)"
  then obtain y' where y': "Day t = christmasDay y'" using isDecember25_christmasDay by blast
  show "Day t = christmasDay y"
  proof (rule ccontr)
    assume ne: "Day t \<noteq> christmasDay y"
    with y' have "y' < y \<or> y + 1 \<le> y'" by (cases "y' = y") auto
    then show False
    proof
      assume "y' < y"
      from christmasDay_less [OF this] y' assms show False by simp
    next
      assume "y + 1 \<le> y'"
      from christmasDay_mono [OF this] y' assms show False by simp
    qed
  qed
qed

lemma beforeDecember25_between:
  assumes "christmasDay y - 24 \<le> Day t" "Day t < christmasDay (y + 1) - 24"
  shows "beforeDecember25 (Some t) \<longleftrightarrow> Day t < christmasDay y"
proof (cases "Day t < christmasDay y + 7")
  case True
  with assms have "YearFromTime t = y"
    using christmasDay_year [of t y "Day t - christmasDay y"] by simp
  then show ?thesis using assms by (auto simp: beforeDecember25_iff christmasDay_def)
next
  case False
  then have lo: "DayFromYear (y + 1) \<le> Day t" by (simp add: christmasDay_def)
  have "DayFromYear (y + 1 + 1) = DayFromYear (y + 1) + DaysInYear (y + 1)" by (rule DayFromYear_step)
  then have e: "christmasDay (y + 1) = DayFromYear (y + 1 + 1) - 7" by (simp add: christmasDay_def add.commute)
  with assms have "Day t < DayFromYear (y + 1 + 1)" by simp
  with lo have "YearFromTime t = y + 1" by (rule YearFromTime_unique)
  with e assms False show ?thesis by (simp add: beforeDecember25_iff)
qed

section \<open>The search loop\<close>

lemma candidateMinutes_Some:
  "candidateMinutes now s = Some m \<longleftrightarrow>
     isDecember25 (stationLocalTime now s) \<and> m = minutesUntilMidnight (the (stationLocalTime now s))"
  by (cases "stationLocalTime now s") (auto simp: candidateMinutes_def isDecember25_def)

lemma candidateMinutes_None:
  "candidateMinutes now s = None \<longleftrightarrow> \<not> isDecember25 (stationLocalTime now s)"
  by (cases "stationLocalTime now s") (auto simp: candidateMinutes_def isDecember25_def)

lemma scanStations_Cons:
  "scanStations now (s # rest) i (cur, sm) =
     (case candidateMinutes now s of
        None \<Rightarrow> scanStations now rest (i + 1) (cur, sm)
      | Some m \<Rightarrow> if lessThanSmallest m sm then scanStations now rest (i + 1) (i, Some m)
                  else scanStations now rest (i + 1) (cur, sm))"
  by (cases "stationLocalTime now s") (simp_all add: candidateMinutes_def isDecember25_def)

declare scanStations.simps(2) [simp del]

text \<open>
  What the loop returns: the state it was started with when no station beats it, and
  otherwise the first station with the least minutes.
\<close>

lemma scanStations_spec:
  "scanStations now xs i (cur, sm) = (k, sm') \<Longrightarrow>
     (k = cur \<and> sm' = sm \<and>
        (\<forall>j<length xs. \<forall>m. candidateMinutes now (xs ! j) = Some m \<longrightarrow> \<not> lessThanSmallest m sm))
   \<or> (\<exists>j m. j < length xs \<and> k = i + int j \<and> candidateMinutes now (xs ! j) = Some m \<and> sm' = Some m \<and>
          lessThanSmallest m sm \<and>
          (\<forall>j'<length xs. \<forall>m'. candidateMinutes now (xs ! j') = Some m' \<longrightarrow> m \<le> m' \<and> (m' = m \<longrightarrow> j \<le> j')))"
proof (induction xs arbitrary: i cur sm)
  case Nil
  then show ?case by simp
next
  case (Cons s rest)
  show ?case
  proof (cases "\<exists>m0. candidateMinutes now s = Some m0 \<and> lessThanSmallest m0 sm")
    case True
    then obtain m0 where m0: "candidateMinutes now s = Some m0" "lessThanSmallest m0 sm" by blast
    then have run: "scanStations now rest (i + 1) (i, Some m0) = (k, sm')"
      using Cons.prems by (simp add: scanStations_Cons)
    from Cons.IH [OF run] show ?thesis
    proof
      assume same: "k = i \<and> sm' = Some m0 \<and>
        (\<forall>j<length rest. \<forall>m. candidateMinutes now (rest ! j) = Some m \<longrightarrow> \<not> lessThanSmallest m (Some m0))"
      have "\<forall>j'<length (s # rest). \<forall>m'. candidateMinutes now ((s # rest) ! j') = Some m' \<longrightarrow>
              m0 \<le> m' \<and> (m' = m0 \<longrightarrow> 0 \<le> j')"
      proof (intro allI impI)
        fix j' m' assume j': "j' < length (s # rest)" and c: "candidateMinutes now ((s # rest) ! j') = Some m'"
        show "m0 \<le> m' \<and> (m' = m0 \<longrightarrow> 0 \<le> j')"
        proof (cases j')
          case 0
          with c m0 show ?thesis by simp
        next
          case (Suc n)
          with j' c same have "\<not> lessThanSmallest m' (Some m0)" by auto
          then show ?thesis by (simp add: lessThanSmallest_def)
        qed
      qed
      with same m0 have "0 < length (s # rest) \<and> k = i + int 0 \<and> candidateMinutes now ((s # rest) ! 0) = Some m0 \<and>
          sm' = Some m0 \<and> lessThanSmallest m0 sm \<and>
          (\<forall>j'<length (s # rest). \<forall>m'. candidateMinutes now ((s # rest) ! j') = Some m' \<longrightarrow> m0 \<le> m' \<and> (m' = m0 \<longrightarrow> 0 \<le> j'))"
        by simp
      then show ?thesis by blast
    next
      assume "\<exists>j m. j < length rest \<and> k = i + 1 + int j \<and> candidateMinutes now (rest ! j) = Some m \<and> sm' = Some m \<and>
          lessThanSmallest m (Some m0) \<and>
          (\<forall>j'<length rest. \<forall>m'. candidateMinutes now (rest ! j') = Some m' \<longrightarrow> m \<le> m' \<and> (m' = m \<longrightarrow> j \<le> j'))"
      then obtain j m where j: "j < length rest" "k = i + 1 + int j" "candidateMinutes now (rest ! j) = Some m"
        "sm' = Some m" "lessThanSmallest m (Some m0)"
        and least: "\<forall>j'<length rest. \<forall>m'. candidateMinutes now (rest ! j') = Some m' \<longrightarrow> m \<le> m' \<and> (m' = m \<longrightarrow> j \<le> j')"
        by blast
      from j(5) have lt: "m < m0" by (simp add: lessThanSmallest_def)
      with m0(2) have less: "lessThanSmallest m sm" by (cases sm) (simp_all add: lessThanSmallest_def)
      have "\<forall>j'<length (s # rest). \<forall>m'. candidateMinutes now ((s # rest) ! j') = Some m' \<longrightarrow>
              m \<le> m' \<and> (m' = m \<longrightarrow> Suc j \<le> j')"
      proof (intro allI impI)
        fix j' m' assume j': "j' < length (s # rest)" and c: "candidateMinutes now ((s # rest) ! j') = Some m'"
        show "m \<le> m' \<and> (m' = m \<longrightarrow> Suc j \<le> j')"
        proof (cases j')
          case 0
          with c m0 lt show ?thesis by simp
        next
          case (Suc n)
          with j' c least show ?thesis by auto
        qed
      qed
      with j less have "Suc j < length (s # rest) \<and> k = i + int (Suc j) \<and> candidateMinutes now ((s # rest) ! Suc j) = Some m \<and>
          sm' = Some m \<and> lessThanSmallest m sm \<and>
          (\<forall>j'<length (s # rest). \<forall>m'. candidateMinutes now ((s # rest) ! j') = Some m' \<longrightarrow> m \<le> m' \<and> (m' = m \<longrightarrow> Suc j \<le> j'))"
        by simp
      then show ?thesis by blast
    qed
  next
    case False
    then have run: "scanStations now rest (i + 1) (cur, sm) = (k, sm')"
      using Cons.prems by (auto simp: scanStations_Cons split: option.splits if_splits)
    from Cons.IH [OF run] show ?thesis
    proof
      assume same: "k = cur \<and> sm' = sm \<and>
        (\<forall>j<length rest. \<forall>m. candidateMinutes now (rest ! j) = Some m \<longrightarrow> \<not> lessThanSmallest m sm)"
      have "\<forall>j<length (s # rest). \<forall>m. candidateMinutes now ((s # rest) ! j) = Some m \<longrightarrow> \<not> lessThanSmallest m sm"
      proof (intro allI impI)
        fix j m assume j: "j < length (s # rest)" and c: "candidateMinutes now ((s # rest) ! j) = Some m"
        show "\<not> lessThanSmallest m sm"
        proof (cases j)
          case 0
          with c False show ?thesis by auto
        next
          case (Suc n)
          with j c same show ?thesis by auto
        qed
      qed
      with same show ?thesis by blast
    next
      assume "\<exists>j m. j < length rest \<and> k = i + 1 + int j \<and> candidateMinutes now (rest ! j) = Some m \<and> sm' = Some m \<and>
          lessThanSmallest m sm \<and>
          (\<forall>j'<length rest. \<forall>m'. candidateMinutes now (rest ! j') = Some m' \<longrightarrow> m \<le> m' \<and> (m' = m \<longrightarrow> j \<le> j'))"
      then obtain j m where j: "j < length rest" "k = i + 1 + int j" "candidateMinutes now (rest ! j) = Some m"
        "sm' = Some m" "lessThanSmallest m sm"
        and least: "\<forall>j'<length rest. \<forall>m'. candidateMinutes now (rest ! j') = Some m' \<longrightarrow> m \<le> m' \<and> (m' = m \<longrightarrow> j \<le> j')"
        by blast
      have "\<forall>j'<length (s # rest). \<forall>m'. candidateMinutes now ((s # rest) ! j') = Some m' \<longrightarrow>
              m \<le> m' \<and> (m' = m \<longrightarrow> Suc j \<le> j')"
      proof (intro allI impI)
        fix j' m' assume j': "j' < length (s # rest)" and c: "candidateMinutes now ((s # rest) ! j') = Some m'"
        show "m \<le> m' \<and> (m' = m \<longrightarrow> Suc j \<le> j')"
        proof (cases j')
          case 0
          with c False have nl: "\<not> lessThanSmallest m' sm" by auto
          with j(5) show ?thesis by (cases sm) (auto simp: lessThanSmallest_def)
        next
          case (Suc n)
          with j' c least show ?thesis by auto
        qed
      qed
      with j have "Suc j < length (s # rest) \<and> k = i + int (Suc j) \<and> candidateMinutes now ((s # rest) ! Suc j) = Some m \<and>
          sm' = Some m \<and> lessThanSmallest m sm \<and>
          (\<forall>j'<length (s # rest). \<forall>m'. candidateMinutes now ((s # rest) ! j') = Some m' \<longrightarrow> m \<le> m' \<and> (m' = m \<longrightarrow> Suc j \<le> j'))"
        by simp
      then show ?thesis by blast
    qed
  qed
qed

text \<open>The search as the resolver starts it, from \<open>(-1, Infinity)\<close>.\<close>

lemma scanStations_none:
  assumes "\<forall>s\<in>set xs. candidateMinutes now s = None"
  shows "fst (scanStations now xs 0 (- 1, None)) = - 1"
proof -
  obtain k sm' where run: "scanStations now xs 0 (- 1, None) = (k, sm')" by (cases "scanStations now xs 0 (- 1, None)")
  from assms have "\<And>j. j < length xs \<Longrightarrow> candidateMinutes now (xs ! j) = None" by simp
  with scanStations_spec [OF run] show ?thesis
    unfolding run by auto
qed

lemma scanStations_found:
  assumes "\<exists>s\<in>set xs. candidateMinutes now s \<noteq> None"
  shows "\<exists>j m. fst (scanStations now xs 0 (- 1, None)) = int j \<and> j < length xs \<and>
           candidateMinutes now (xs ! j) = Some m \<and>
           (\<forall>j'<length xs. \<forall>m'. candidateMinutes now (xs ! j') = Some m' \<longrightarrow> m \<le> m' \<and> (m' = m \<longrightarrow> j \<le> j'))"
proof -
  obtain k sm' where run: "scanStations now xs 0 (- 1, None) = (k, sm')" by (cases "scanStations now xs 0 (- 1, None)")
  from assms obtain j0 m0 where "j0 < length xs" "candidateMinutes now (xs ! j0) = Some m0"
    by (auto simp: in_set_conv_nth)
  then have "\<not> (\<forall>j<length xs. \<forall>m. candidateMinutes now (xs ! j) = Some m \<longrightarrow> \<not> lessThanSmallest m None)"
    by (auto simp: lessThanSmallest_def)
  with scanStations_spec [OF run] show ?thesis
    unfolding run by auto
qed

lemma scanStations_index:
  "fst (scanStations now xs 0 (- 1, None)) = - 1 \<and> (\<forall>s\<in>set xs. candidateMinutes now s = None)
   \<or> (\<exists>k. fst (scanStations now xs 0 (- 1, None)) = int k \<and> k < length xs \<and>
          candidateMinutes now (xs ! k) \<noteq> None)"
proof (cases "\<forall>s\<in>set xs. candidateMinutes now s = None")
  case True
  then show ?thesis using scanStations_none by blast
next
  case False
  then have "\<exists>s\<in>set xs. candidateMinutes now s \<noteq> None" by blast
  from scanStations_found [OF this] show ?thesis by force
qed

section \<open>The east-to-west order and the branches of the resolver\<close>

lemma stationsByTimezone_props:
  "length (stationsByTimezone stations) = length stations"
  "set (stationsByTimezone stations) = set stations"
  "stationsByTimezone stations = [] \<longleftrightarrow> stations = []"
proof -
  show len: "length (stationsByTimezone stations) = length stations"
    by (simp add: stationsByTimezone_def)
  show "set (stationsByTimezone stations) = set stations"
    by (simp add: stationsByTimezone_def)
  from len show "stationsByTimezone stations = [] \<longleftrightarrow> stations = []"
    by (metis length_0_conv)
qed

lemma stationsByTimezone_descending:
  assumes "i \<le> j" "j < length stations"
  shows "offset (stationsByTimezone stations ! j) \<le> offset (stationsByTimezone stations ! i)"
proof -
  let ?xs = "stationsByTimezone stations"
  have srt: "sorted (map (\<lambda>s. - offset s) ?xs)" by (simp add: stationsByTimezone_def)
  have "- offset (?xs ! i) \<le> - offset (?xs ! j)"
    using sorted_nth_mono [OF srt, of i j] assms by (simp add: stationsByTimezone_props)
  then show ?thesis by simp
qed

lemma stationsByTimezone_stable:
  "filter (\<lambda>s. offset s = k) (stationsByTimezone stations) = filter (\<lambda>s. offset s = k) stations"
  using sort_key_stable [of "\<lambda>s. - offset s" "- k" stations]
  by (simp add: stationsByTimezone_def)

text \<open>The three branches of the resolver, and the empty table.\<close>

lemma getSantaLocationOn_pre:
  assumes "stationsByTimezone stations = first # rest"
    and "beforeDecember25 (stationLocalTime now first)"
  shows "getSantaLocationOn stations tza now =
           Inr \<lparr>location = NORTH_POLE,
                 localTime = localTimeString now (offset NORTH_POLE),
                 isChristmas = (DateFromTime (now + tza) = 25 \<and> MonthFromTime (now + tza) = 11),
                 visitedLocations = [NORTH_POLE_COORDS],
                 plannedRoute = fullRoute (stationsByTimezone stations)\<rparr>"
  using assms by (simp add: getSantaLocationOn_def Let_def)

lemma getSantaLocationOn_active:
  assumes "stationsByTimezone stations = first # rest"
    and "\<not> beforeDecember25 (stationLocalTime now first)"
    and "fst (scanStations now (stationsByTimezone stations) 0 (- 1, None)) = int k"
  shows "getSantaLocationOn stations tza now =
           Inr \<lparr>location = stationsByTimezone stations ! k,
                 localTime = localTimeString now (offset (stationsByTimezone stations ! k)),
                 isChristmas = (DateFromTime (now + tza) = 25 \<and> MonthFromTime (now + tza) = 11),
                 visitedLocations =
                   NORTH_POLE_COORDS # map coordinates (take (Suc k) (stationsByTimezone stations)),
                 plannedRoute = fullRoute (stationsByTimezone stations)\<rparr>"
proof -
  have "nat (int k + 1) = Suc k" by simp
  with assms show ?thesis by (simp add: getSantaLocationOn_def Let_def)
qed

lemma getSantaLocationOn_post:
  assumes "stationsByTimezone stations = first # rest"
    and "\<not> beforeDecember25 (stationLocalTime now first)"
    and "fst (scanStations now (stationsByTimezone stations) 0 (- 1, None)) = - 1"
  shows "getSantaLocationOn stations tza now =
           Inr \<lparr>location = NORTH_POLE,
                 localTime = localTimeString now (offset NORTH_POLE),
                 isChristmas = (DateFromTime (now + tza) = 25 \<and> MonthFromTime (now + tza) = 11),
                 visitedLocations = fullRoute (stationsByTimezone stations),
                 plannedRoute = fullRoute (stationsByTimezone stations)\<rparr>"
  using assms by (simp add: getSantaLocationOn_def Let_def)

lemma getSantaLocationOn_empty: "getSantaLocationOn [] tza now = Inl TypeError"
  by (simp add: getSantaLocationOn_def stationsByTimezone_def)

lemma getSantaLocationOn_plannedRoute:
  assumes "stations \<noteq> []"
  shows "\<exists>r. getSantaLocationOn stations tza now = Inr r \<and>
              plannedRoute r = fullRoute (stationsByTimezone stations)"
proof -
  obtain first rest where fr: "stationsByTimezone stations = first # rest"
    using assms by (cases "stationsByTimezone stations") (simp_all add: stationsByTimezone_props)
  show ?thesis
  proof (cases "beforeDecember25 (stationLocalTime now first)")
    case True
    from getSantaLocationOn_pre [OF fr True] show ?thesis by simp
  next
    case False
    from scanStations_index [of now "stationsByTimezone stations"] show ?thesis
    proof (elim disjE exE conjE)
      assume "fst (scanStations now (stationsByTimezone stations) 0 (- 1, None)) = - 1"
      from getSantaLocationOn_post [OF fr False this] show ?thesis by simp
    next
      fix k assume "fst (scanStations now (stationsByTimezone stations) 0 (- 1, None)) = int k"
      from getSantaLocationOn_active [OF fr False this] show ?thesis by simp
    qed
  qed
qed

lemma getSantaLocationOn_location:
  assumes "getSantaLocationOn stations tza now = Inr r"
  shows "location r = NORTH_POLE \<or> location r \<in> set stations"
proof -
  from assms have ne: "stations \<noteq> []" by (auto simp: getSantaLocationOn_empty)
  then obtain first rest where fr: "stationsByTimezone stations = first # rest"
    by (cases "stationsByTimezone stations") (simp_all add: stationsByTimezone_props)
  show ?thesis
  proof (cases "beforeDecember25 (stationLocalTime now first)")
    case True
    from getSantaLocationOn_pre [OF fr True, of tza] assms show ?thesis by auto
  next
    case False
    from scanStations_index [of now "stationsByTimezone stations"] show ?thesis
    proof (elim disjE exE conjE)
      assume "fst (scanStations now (stationsByTimezone stations) 0 (- 1, None)) = - 1"
      from getSantaLocationOn_post [OF fr False this, of tza] assms show ?thesis by auto
    next
      fix k assume k: "fst (scanStations now (stationsByTimezone stations) 0 (- 1, None)) = int k"
        "k < length (stationsByTimezone stations)"
      then have "stationsByTimezone stations ! k \<in> set stations"
        using nth_mem [of k "stationsByTimezone stations"] by (simp add: stationsByTimezone_props)
      with getSantaLocationOn_active [OF fr False k(1), of tza] assms show ?thesis by auto
    qed
  qed
qed

section \<open>The compiled-in table\<close>

lemma TRACKING_STATIONS_length: "length TRACKING_STATIONS = 29"
  by (simp add: TRACKING_STATIONS_def)

lemma TRACKING_STATIONS_nonempty: "TRACKING_STATIONS \<noteq> []"
  using TRACKING_STATIONS_length by auto

lemma stationsByTimezone_table:
  "stationsByTimezone TRACKING_STATIONS =
     map (\<lambda>i. TRACKING_STATIONS ! i)
       [28, 27, 26, 25, 24, 23, 22, 20, 21, 19, 17, 18, 15, 16, 13, 14, 12, 11, 10, 9, 8, 7, 6, 5, 4, 3, 2, 1, 0]"
  by (simp add: stationsByTimezone_def TRACKING_STATIONS_def)

lemma first_station:
  "\<exists>rest. stationsByTimezone TRACKING_STATIONS = (TRACKING_STATIONS ! 28) # rest"
  "TRACKING_STATIONS ! 28 \<in> set TRACKING_STATIONS"
  "offsetMillis (TRACKING_STATIONS ! 28) = 50400000"
  by (simp_all add: stationsByTimezone_table) (simp_all add: TRACKING_STATIONS_def offsetMillis_def)

lemma table_offsets:
  "\<forall>s\<in>set TRACKING_STATIONS. offset s * 60 * 60 * 1000 = of_int (offsetMillis s) \<and>
      - 39600000 \<le> offsetMillis s \<and> offsetMillis s \<le> 50400000"
  by (simp add: TRACKING_STATIONS_def offsetMillis_def)

lemma table_regions:
  "\<forall>s\<in>set TRACKING_STATIONS. \<exists>logs. REGION_LOGS_get (region s) = Own logs"
  by (simp add: TRACKING_STATIONS_def REGION_LOGS_get_def REGION_LOGS_def)

lemma REGION_LOGS_get_ARCTIC: "\<exists>logs. REGION_LOGS_get ''ARCTIC'' = Own logs"
  by (simp add: REGION_LOGS_get_def REGION_LOGS_def)

lemma mkDate_of_int:
  "mkDate (of_int z) = (if \<bar>z\<bar> \<le> 8640000000000000 then Some z else None)"
proof -
  have "\<bar>of_int z :: rat\<bar> \<le> 8640000000000000 \<longleftrightarrow> \<bar>z\<bar> \<le> 8640000000000000"
    by (metis of_int_abs of_int_le_iff of_int_numeral)
  moreover have "trunc (of_int z) = z" by (simp add: trunc_def)
  ultimately show ?thesis by (simp add: mkDate_def)
qed

lemma stationLocalTime_table:
  assumes "s \<in> set TRACKING_STATIONS"
  shows "stationLocalTime now s =
           (if \<bar>now + offsetMillis s\<bar> \<le> 8640000000000000 then Some (now + offsetMillis s) else None)"
proof -
  from assms table_offsets have "offset s * 60 * 60 * 1000 = of_int (offsetMillis s)" by blast
  then have "of_int now + offset s * 60 * 60 * 1000 = (of_int (now + offsetMillis s) :: rat)" by simp
  then show ?thesis unfolding stationLocalTime_def by (simp only: mkDate_of_int)
qed

lemma offsetMillis_range:
  assumes "s \<in> set TRACKING_STATIONS"
  shows "- 39600000 \<le> offsetMillis s" "offsetMillis s \<le> 50400000"
  using assms table_offsets by blast+

lemma offsetMillis_mono: "offset s \<le> offset s' \<Longrightarrow> offsetMillis s \<le> offsetMillis s'"
  unfolding offsetMillis_def by (intro floor_mono) simp

text \<open>While the easternmost station is still before December 25, no station is on it.\<close>

lemma before_excludes_candidates:
  assumes "beforeDecember25 (stationLocalTime now (TRACKING_STATIONS ! 28))"
    and "s \<in> set TRACKING_STATIONS"
  shows "candidateMinutes now s = None"
proof (rule ccontr)
  assume "candidateMinutes now s \<noteq> None"
  then have dec: "isDecember25 (stationLocalTime now s)" by (simp add: candidateMinutes_None)
  define t1 where "t1 = now + 50400000"
  define t2 where "t2 = now + offsetMillis s"
  from assms(1) have l1: "stationLocalTime now (TRACKING_STATIONS ! 28) = Some t1"
    unfolding stationLocalTime_table [OF first_station(2)] first_station(3) t1_def
    by (auto simp: beforeDecember25_def split: if_splits)
  from dec have l2: "stationLocalTime now s = Some t2"
    unfolding stationLocalTime_table [OF assms(2)] t2_def
    by (auto simp: isDecember25_def split: if_splits)
  have "t2 \<le> t1" "t1 \<le> t2 + 90000000"
    using offsetMillis_range [OF assms(2)] by (simp_all add: t1_def t2_def)
  then have near: "Day t2 \<le> Day t1" "Day t1 \<le> Day t2 + 2" by (rule Day_near)+
  from dec l2 have d2: "Day t2 = DayFromYear (YearFromTime t2 + 1) - 7"
    by (simp add: isDecember25_iff)
  from assms(1) l1 have d1: "Day t1 < DayFromYear (YearFromTime t1 + 1) - 7"
    by (simp add: beforeDecember25_iff)
  from year_end_cases [OF near(1)] d1 d2 near show False by linarith
qed

section \<open>The message generator\<close>

lemma pick_Some: "pick xs r = Some x \<Longrightarrow> x \<in> set xs"
proof -
  assume p: "pick xs r = Some x"
  define i where "i = \<lfloor>binary64 (r * of_nat (length xs))\<rfloor>"
  from p have "0 \<le> i \<and> i < int (length xs) \<and> x = xs ! nat i"
    by (auto simp: pick_def Let_def i_def split: if_splits)
  then have "nat i < length xs" "x = xs ! nat i" by auto
  then show ?thesis by simp
qed

lemma velocityMessage_not_generic: "velocityMessage speed \<notin> set GENERIC_LOGS"
  by (simp add: velocityMessage_def GENERIC_LOGS_def)

lemma payloadMessage_not_generic: "payloadMessage delivered \<notin> set GENERIC_LOGS"
  by (simp add: payloadMessage_def GENERIC_LOGS_def)

lemma generateIntelMessage_region_band:
  assumes "locationName \<noteq> ''NORTH POLE''" "binary64 0.4 \<le> rand" "rand < binary64 0.7"
    and "REGION_LOGS_get regionTag = Own logs"
  shows "generateIntelMessage locationName regionTag speed delivered rand rand2 = Inr (pick logs rand2)"
  using assms by (simp add: generateIntelMessage_def)

text \<open>
  The sorted table is in descending order of the offsets, and it is the only arrangement of
  the table that is in that order and keeps the stations of one offset in their order of
  the table.
\<close>

lemma stationsByTimezone_ordered:
  "sorted_wrt (\<lambda>a b. offset b \<le> offset a) (stationsByTimezone stations)"
proof -
  have "sorted (map (\<lambda>s. - offset s) (stationsByTimezone stations))"
    by (simp add: stationsByTimezone_def)
  then show ?thesis by (simp add: sorted_wrt_map)
qed

lemma stationsByTimezone_unique:
  assumes "mset route = mset stations"
    and "sorted_wrt (\<lambda>a b. offset b \<le> offset a) route"
    and "\<forall>k. filter (\<lambda>s. offset s = k) route = filter (\<lambda>s. offset s = k) stations"
  shows "route = stationsByTimezone stations"
proof -
  have s: "sorted (map (\<lambda>s. - offset s) route)"
    using assms(2) by (simp add: sorted_wrt_map)
  have f: "filter (\<lambda>x. - offset k = - offset x) route = filter (\<lambda>x. - offset k = - offset x) stations"
    if "k \<in> set route" for k
  proof -
    have e: "(\<lambda>x. - offset k = - offset x) = (\<lambda>s. offset s = offset k)" by auto
    from assms(3) have "filter (\<lambda>s. offset s = offset k) route = filter (\<lambda>s. offset s = offset k) stations"
      by blast
    then show ?thesis by (simp only: e)
  qed
  show ?thesis
    unfolding stationsByTimezone_def
    using properties_for_sort_key [OF assms(1) f s] by simp
qed


text \<open>
  The literals of the generator as binary64 numbers, the action templates with the
  placeholder located, and the bands of the first draw.
\<close>

lemma binary64_literals:
  "binary64 0.4 = 3602879701896397 / 9007199254740992"
  "binary64 0.7 = 3152519739159347 / 4503599627370496"
  "binary64 0.85 = 7656119366529843 / 9007199254740992"
  by code_simp+

lemma binary64_literals_ordered:
  "binary64 0.4 < binary64 0.7" "binary64 0.7 < binary64 0.85"
  unfolding binary64_literals by simp_all

lemma binary64_dyadic_draws:
  "binary64 0.4 \<le> 1 / 2" "(1 / 2 :: rat) < binary64 0.7" "binary64 0.7 \<le> 3 / 4"
  "(3 / 4 :: rat) < binary64 0.85" "binary64 0.85 \<le> 7 / 8" "(1 / 4 :: rat) < binary64 0.4"
  unfolding binary64_literals by simp_all

lemma find_first_ACTION_LOGS:
  "find_first ''%LOC%'' [] ''TARGET LOCKED: %LOC%'' = Some (''TARGET LOCKED: '', '''')"
  "find_first ''%LOC%'' [] ''INITIATING DELIVERY SEQUENCE: %LOC%'' = Some (''INITIATING DELIVERY SEQUENCE: '', '''')"
  "find_first ''%LOC%'' [] ''THERMAL SPIKE DETECTED OVER %LOC%'' = Some (''THERMAL SPIKE DETECTED OVER '', '''')"
  "find_first ''%LOC%'' [] ''DROPPING TO ROOFTOP ALTITUDE: %LOC%'' = Some (''DROPPING TO ROOFTOP ALTITUDE: '', '''')"
  "find_first ''%LOC%'' [] ''SONIC BOOM REPORTED NEAR %LOC%'' = Some (''SONIC BOOM REPORTED NEAR '', '''')"
  "find_first ''%LOC%'' [] ''LOCAL AUTHORITIES IN %LOC% NOTIFIED'' = Some (''LOCAL AUTHORITIES IN '', '' NOTIFIED'')"
  "find_first ''%LOC%'' [] ''HYPER-SPEED JUMP TO %LOC% COMPLETE'' = Some (''HYPER-SPEED JUMP TO '', '' COMPLETE'')"
  "find_first ''%LOC%'' [] ''MAGIC DUST LEVELS: NOMINAL'' = None"
  "find_first ''%LOC%'' [] ''TIME DILATION FIELD: ACTIVE'' = None"
  "find_first ''%LOC%'' [] ''CHIMNEY ENTRY PROTOCOL: INITIATED'' = None"
  by code_simp+

lemma action_not_generic:
  assumes "tmpl \<in> set ACTION_LOGS"
  shows "replace tmpl ''%LOC%'' locationName \<notin> set GENERIC_LOGS"
proof -
  have "\<forall>t\<in>set ACTION_LOGS. replace t ''%LOC%'' locationName \<notin> set GENERIC_LOGS"
    unfolding ACTION_LOGS_def replace_def list.set ball_simps find_first_ACTION_LOGS
    by (simp add: GENERIC_LOGS_def)
  with assms show ?thesis by blast
qed

lemma generateIntelMessage_action_band:
  assumes "locationName \<noteq> ''NORTH POLE''" "rand < binary64 0.4"
  shows "generateIntelMessage locationName regionTag speed delivered rand rand2 =
           (case pick ACTION_LOGS rand2 of
              None \<Rightarrow> Inl TypeError
            | Some tmpl \<Rightarrow> Inr (Some (replace tmpl ''%LOC%'' locationName)))"
  using assms by (simp add: generateIntelMessage_def)

lemma generateIntelMessage_stats_band:
  assumes "locationName \<noteq> ''NORTH POLE''" "REGION_LOGS_get regionTag = Absent"
    and "binary64 0.4 \<le> rand" "rand < binary64 0.85"
  shows "generateIntelMessage locationName regionTag speed delivered rand rand2
           = Inr (Some (if rand2 > 1 / 2 then velocityMessage speed else payloadMessage delivered))"
  using assms by (simp add: generateIntelMessage_def)

lemma generateIntelMessage_generic_band:
  assumes "locationName \<noteq> ''NORTH POLE''" "binary64 0.85 \<le> rand"
  shows "generateIntelMessage locationName regionTag speed delivered rand rand2
           = Inr (pick GENERIC_LOGS rand2)"
proof -
  from assms(2) binary64_literals_ordered have "\<not> rand < binary64 0.4" "\<not> rand < binary64 0.7"
    "\<not> rand < binary64 0.85" by linarith+
  with assms(1) show ?thesis by (simp add: generateIntelMessage_def)
qed

lemma generic_only_from_085:
  assumes "locationName \<noteq> ''NORTH POLE''" "REGION_LOGS_get regionTag = Absent"
    and "generateIntelMessage locationName regionTag speed delivered rand rand2 = Inr (Some m)"
    and "m \<in> set GENERIC_LOGS"
  shows "binary64 0.85 \<le> rand"
proof (rule ccontr)
  assume "\<not> binary64 0.85 \<le> rand"
  then have lt: "rand < binary64 0.85" by simp
  show False
  proof (cases "rand < binary64 0.4")
    case True
    from generateIntelMessage_action_band [OF assms(1) True, of regionTag speed delivered rand2] assms(3)
    obtain tmpl where "pick ACTION_LOGS rand2 = Some tmpl" "m = replace tmpl ''%LOC%'' locationName"
      by (cases "pick ACTION_LOGS rand2") auto
    with pick_Some [of ACTION_LOGS rand2 tmpl] action_not_generic [of tmpl locationName] assms(4)
    show False by simp
  next
    case False
    then have "binary64 0.4 \<le> rand" by simp
    from generateIntelMessage_stats_band [OF assms(1,2) this lt, of speed delivered rand2] assms(3)
    have "m = velocityMessage speed \<or> m = payloadMessage delivered" by (auto split: if_splits)
    with velocityMessage_not_generic [of speed] payloadMessage_not_generic [of delivered] assms(4)
    show False by auto
  qed
qed


text \<open>
  Where the rounding decides: \<open>4513500000 / 1000000000\<close> is rounded to a binary64 number
  below \<open>4.5135\<close> and prints as \<open>4.513\<close>; the draw \<open>0.6666666666666666\<close> times three is
  rounded to \<open>2\<close> and selects the third of three messages; the draw equal to the literal
  \<open>0.7\<close> is past the region band, and the draw equal to the literal \<open>0.85\<close> is in the
  generic band.
\<close>

lemma generator_rounding_examples:
  "payloadMessage 4513500000 = ''PAYLOAD UPDATE: 4.513B UNITS CONFIRMED''"
  "pick [''a'', ''b'', ''c''] (6004799503160661 / 9007199254740992) = Some ''c''"
  "generateIntelMessage ''LONDON'' ''EUROPE'' (17 / 4) 4551000000 (binary64 0.7) (3 / 4)
     = Inr (Some ''CURRENT VELOCITY: MACH 4.25 // HULL INTEGRITY 100%'')"
  "generateIntelMessage ''LONDON'' ''MARS'' (17 / 4) 4551000000 (binary64 0.85) (3 / 4)
     = Inr (Some ''ATMOSPHERIC ENTRY DETECTED // SHIELDS HOLDING'')"
  by code_simp+


section \<open>The mission cycle of a year\<close>

lemma station_nth:
  assumes "j < 29"
  shows "stationsByTimezone TRACKING_STATIONS ! j \<in> set TRACKING_STATIONS"
proof -
  have "j < length (stationsByTimezone TRACKING_STATIONS)"
    using assms by (simp add: stationsByTimezone_props TRACKING_STATIONS_length)
  then have "stationsByTimezone TRACKING_STATIONS ! j \<in> set (stationsByTimezone TRACKING_STATIONS)"
    by (rule nth_mem)
  then show ?thesis by (simp add: stationsByTimezone_props)
qed

lemma table_members:
  "TRACKING_STATIONS ! 10 \<in> set TRACKING_STATIONS" "offsetMillis (TRACKING_STATIONS ! 10) = 0"
  "TRACKING_STATIONS ! 0 \<in> set TRACKING_STATIONS" "offsetMillis (TRACKING_STATIONS ! 0) = - 39600000"
  by (simp_all add: TRACKING_STATIONS_def offsetMillis_def)

lemma cycle_times:
  "cycleStart y = christmasDay y * msPerDay - 2124000000"
  "launchTime y = christmasDay y * msPerDay - 50400000"
  "missionEnd y = christmasDay y * msPerDay + 126000000"
  by (simp_all add: cycleStart_def launchTime_def missionEnd_def msPerDay_def msPerHour_def algebra_simps)

lemma cycle_2025:
  "cycleStart 2025 = 1764496800000" "launchTime 2025 = 1766570400000"
  "missionEnd 2025 = 1766746800000" "cycleStart 2026 = 1796032800000"
  by (simp_all add: cycle_times christmasDay_def DayFromYear_def msPerDay_def)

text \<open>
  Within a mission cycle that lies within the range of time values, every station of the
  table has a valid local date; it is on December 25 during 24 hours, and the easternmost
  station is before it until the launch.
\<close>

lemma cycle_valid:
  assumes "- 271821 \<le> y" "y \<le> 275758" "cycleStart y \<le> t" "t < cycleStart (y + 1)"
    and "s \<in> set TRACKING_STATIONS"
  shows "stationLocalTime t s = Some (t + offsetMillis s)"
proof -
  have "christmasDay (- 271821) \<le> christmasDay y" using assms(1) by (rule christmasDay_mono)
  then have "- 99999751 * msPerDay \<le> christmasDay y * msPerDay"
    by (simp add: christmasDay_values msPerDay_def)
  then have lo: "- 8639978486400000 \<le> christmasDay y * msPerDay" by (simp add: msPerDay_def)
  have "christmasDay (y + 1) \<le> christmasDay 275759" using assms(2) by (intro christmasDay_mono) simp
  then have "christmasDay (y + 1) * msPerDay \<le> 99999737 * msPerDay"
    by (simp add: christmasDay_values msPerDay_def)
  then have hi: "christmasDay (y + 1) * msPerDay \<le> 8639977276800000" by (simp add: msPerDay_def)
  from lo hi assms(3,4) offsetMillis_range [OF assms(5)]
  have "\<bar>t + offsetMillis s\<bar> \<le> 8640000000000000"
    unfolding cycle_times by linarith
  then show ?thesis by (simp add: stationLocalTime_table [OF assms(5)])
qed

lemma cycle_candidate:
  assumes "- 271821 \<le> y" "y \<le> 275758" "cycleStart y \<le> t" "t < cycleStart (y + 1)"
    and "s \<in> set TRACKING_STATIONS"
  shows "candidateMinutes t s =
           (if christmasDay y * msPerDay \<le> t + offsetMillis s \<and>
               t + offsetMillis s < christmasDay y * msPerDay + 86400000
            then Some (minutesUntilMidnight (t + offsetMillis s)) else None)"
proof -
  let ?lt = "t + offsetMillis s"
  note o = offsetMillis_range [OF assms(5)]
  have "(christmasDay y - 300) * msPerDay \<le> ?lt"
    using assms(3) o unfolding cycle_times by (simp add: msPerDay_def algebra_simps)
  then have d1: "christmasDay y - 300 \<le> Day ?lt" by (simp add: Day_ge_iff)
  have "?lt < christmasDay (y + 1) * msPerDay"
    using assms(4) o unfolding cycle_times by simp
  then have d2: "Day ?lt < christmasDay (y + 1)" by (simp add: Day_less_iff)
  have "isDecember25 (Some ?lt) \<longleftrightarrow>
          christmasDay y * msPerDay \<le> ?lt \<and> ?lt < christmasDay y * msPerDay + 86400000"
    unfolding isDecember25_between [OF d1 d2] Day_eq_iff by (simp add: msPerDay_def algebra_simps)
  then show ?thesis
    unfolding candidateMinutes_def cycle_valid [OF assms] by simp
qed

lemma cycle_before:
  assumes "- 271821 \<le> y" "y \<le> 275758" "cycleStart y \<le> t" "t < cycleStart (y + 1)"
  shows "beforeDecember25 (stationLocalTime t (TRACKING_STATIONS ! 28)) \<longleftrightarrow> t < launchTime y"
proof -
  let ?lt = "t + 50400000"
  have lt: "stationLocalTime t (TRACKING_STATIONS ! 28) = Some ?lt"
    using cycle_valid [OF assms first_station(2)] by (simp add: first_station(3))
  have "(christmasDay y - 24) * msPerDay \<le> ?lt"
    using assms(3) unfolding cycle_times by (simp add: msPerDay_def algebra_simps)
  then have d1: "christmasDay y - 24 \<le> Day ?lt" by (simp add: Day_ge_iff)
  have "?lt < (christmasDay (y + 1) - 24) * msPerDay"
    using assms(4) unfolding cycle_times by (simp add: msPerDay_def algebra_simps)
  then have d2: "Day ?lt < christmasDay (y + 1) - 24" by (simp add: Day_less_iff)
  show ?thesis
    unfolding lt beforeDecember25_between [OF d1 d2] Day_less_iff cycle_times by linarith
qed

text \<open>The three phases of a mission cycle.\<close>

lemma cycle_phase_pre:
  assumes "- 271821 \<le> y" "y \<le> 275758" "cycleStart y \<le> t" "t < cycleStart (y + 1)"
    and "t < launchTime y"
  shows "\<exists>r. getSantaLocation tza t = Inr r \<and> length (visitedLocations r) = 1"
proof -
  obtain rest where fr: "stationsByTimezone TRACKING_STATIONS = (TRACKING_STATIONS ! 28) # rest"
    using first_station(1) by blast
  have "beforeDecember25 (stationLocalTime t (TRACKING_STATIONS ! 28))"
    using cycle_before [OF assms(1-4)] assms(5) by simp
  from getSantaLocationOn_pre [OF fr this, of tza] show ?thesis
    by (simp add: getSantaLocation_def)
qed

lemma cycle_phase_post:
  assumes "- 271821 \<le> y" "y \<le> 275758" "cycleStart y \<le> t" "t < cycleStart (y + 1)"
    and "missionEnd y \<le> t"
  shows "\<exists>r. getSantaLocation tza t = Inr r \<and> length (visitedLocations r) = 31"
proof -
  let ?xs = "stationsByTimezone TRACKING_STATIONS"
  obtain rest where fr: "?xs = (TRACKING_STATIONS ! 28) # rest"
    using first_station(1) by blast
  have nb: "\<not> beforeDecember25 (stationLocalTime t (TRACKING_STATIONS ! 28))"
    using cycle_before [OF assms(1-4)] assms(5) unfolding cycle_times by simp
  have "\<forall>s\<in>set ?xs. candidateMinutes t s = None"
  proof
    fix s assume "s \<in> set ?xs"
    then have s: "s \<in> set TRACKING_STATIONS" by (simp add: stationsByTimezone_props)
    from offsetMillis_range [OF s] assms(5) show "candidateMinutes t s = None"
      unfolding cycle_candidate [OF assms(1-4) s] cycle_times by simp
  qed
  then have "fst (scanStations t ?xs 0 (- 1, None)) = - 1" by (rule scanStations_none)
  from getSantaLocationOn_post [OF fr nb this, of tza] show ?thesis
    by (simp add: getSantaLocation_def fullRoute_def stationsByTimezone_props TRACKING_STATIONS_length)
qed

lemma cycle_phase_active:
  assumes "- 271821 \<le> y" "y \<le> 275758" "cycleStart y \<le> t" "t < cycleStart (y + 1)"
    and "launchTime y \<le> t" "t < missionEnd y"
  shows "\<exists>k m. k < 29 \<and> candidateMinutes t (stationsByTimezone TRACKING_STATIONS ! k) = Some m \<and>
           (\<forall>j<29. \<forall>m'. candidateMinutes t (stationsByTimezone TRACKING_STATIONS ! j) = Some m' \<longrightarrow>
               m \<le> m' \<and> (m' = m \<longrightarrow> k \<le> j)) \<and>
           (\<forall>tza. \<exists>r. getSantaLocation tza t = Inr r \<and> length (visitedLocations r) = k + 2)"
proof -
  let ?xs = "stationsByTimezone TRACKING_STATIONS"
  let ?X = "christmasDay y * msPerDay"
  have len: "length ?xs = 29" by (simp add: stationsByTimezone_props TRACKING_STATIONS_length)
  obtain rest where fr: "?xs = (TRACKING_STATIONS ! 28) # rest"
    using first_station(1) by blast
  have nb: "\<not> beforeDecember25 (stationLocalTime t (TRACKING_STATIONS ! 28))"
    using cycle_before [OF assms(1-4)] assms(5) by simp
  from assms(5,6) have t: "?X - 50400000 \<le> t" "t < ?X + 126000000" unfolding cycle_times by simp_all
  have "\<exists>s\<in>set TRACKING_STATIONS. candidateMinutes t s \<noteq> None"
  proof (cases "t < ?X + 36000000")
    case True
    with t have "candidateMinutes t (TRACKING_STATIONS ! 28) \<noteq> None"
      unfolding cycle_candidate [OF assms(1-4) first_station(2)] first_station(3) by simp
    with first_station(2) show ?thesis by blast
  next
    case False
    show ?thesis
    proof (cases "t < ?X + 86400000")
      case True
      with False have "candidateMinutes t (TRACKING_STATIONS ! 10) \<noteq> None"
        unfolding cycle_candidate [OF assms(1-4) table_members(1)] table_members(2) by simp
      with table_members(1) show ?thesis by blast
    next
      case False
      with t have "candidateMinutes t (TRACKING_STATIONS ! 0) \<noteq> None"
        unfolding cycle_candidate [OF assms(1-4) table_members(3)] table_members(4) by simp
      with table_members(3) show ?thesis by blast
    qed
  qed
  then have "\<exists>s\<in>set ?xs. candidateMinutes t s \<noteq> None" by (simp add: stationsByTimezone_props)
  from scanStations_found [OF this] obtain k m where
    k: "fst (scanStations t ?xs 0 (- 1, None)) = int k" "k < length ?xs"
      "candidateMinutes t (?xs ! k) = Some m"
    and least: "\<forall>j'<length ?xs. \<forall>m'. candidateMinutes t (?xs ! j') = Some m' \<longrightarrow> m \<le> m' \<and> (m' = m \<longrightarrow> k \<le> j')"
    by blast
  have "\<forall>tza. \<exists>r. getSantaLocation tza t = Inr r \<and> length (visitedLocations r) = k + 2"
  proof
    fix tza
    from getSantaLocationOn_active [OF fr nb k(1), of tza] k(2) len
    show "\<exists>r. getSantaLocation tza t = Inr r \<and> length (visitedLocations r) = k + 2"
      by (simp add: getSantaLocation_def)
  qed
  with k least len show ?thesis by auto
qed

text \<open>During a mission, the index of the current station never decreases.\<close>

lemma cycle_index_mono:
  assumes y: "- 271821 \<le> y" "y \<le> 275758"
    and t1: "cycleStart y \<le> t1" "t1 < cycleStart (y + 1)"
    and t2: "cycleStart y \<le> t2" "t2 < cycleStart (y + 1)"
    and le: "t1 \<le> t2"
    and k1: "k1 < 29" "candidateMinutes t1 (stationsByTimezone TRACKING_STATIONS ! k1) = Some m1"
    and least1: "\<forall>j<29. \<forall>m'. candidateMinutes t1 (stationsByTimezone TRACKING_STATIONS ! j) = Some m' \<longrightarrow>
               m1 \<le> m' \<and> (m' = m1 \<longrightarrow> k1 \<le> j)"
    and k2: "k2 < 29" "candidateMinutes t2 (stationsByTimezone TRACKING_STATIONS ! k2) = Some m2"
  shows "k1 \<le> k2"
proof (rule ccontr)
  assume "\<not> k1 \<le> k2"
  then have lt: "k2 < k1" by simp
  let ?xs = "stationsByTimezone TRACKING_STATIONS"
  let ?X = "christmasDay y * msPerDay"
  define o1 where "o1 = offsetMillis (?xs ! k1)"
  define o2 where "o2 = offsetMillis (?xs ! k2)"
  note s1 = station_nth [OF k1(1)] and s2 = station_nth [OF k2(1)]
  have "offset (?xs ! k1) \<le> offset (?xs ! k2)"
    using lt k1(1) by (intro stationsByTimezone_descending) (simp_all add: TRACKING_STATIONS_length)
  then have o: "o1 \<le> o2" unfolding o1_def o2_def by (rule offsetMillis_mono)
  from k1(2) have c1: "?X \<le> t1 + o1" "t1 + o1 < ?X + 86400000" "m1 = minutesUntilMidnight (t1 + o1)"
    unfolding cycle_candidate [OF y t1 s1] o1_def by (simp_all split: if_splits)
  from k2(2) have c2: "?X \<le> t2 + o2" "t2 + o2 < ?X + 86400000"
    unfolding cycle_candidate [OF y t2 s2] o2_def by (simp_all split: if_splits)
  from c1 c2 o le have c3: "?X \<le> t1 + o2" "t1 + o2 < ?X + 86400000" by simp_all
  then have "candidateMinutes t1 (?xs ! k2) = Some (minutesUntilMidnight (t1 + o2))"
    unfolding cycle_candidate [OF y t1 s2] o2_def by simp
  with least1 k2(1) have m: "m1 \<le> minutesUntilMidnight (t1 + o2)"
      "minutesUntilMidnight (t1 + o2) = m1 \<longrightarrow> k1 \<le> k2" by blast+
  have "Day (t1 + o1) = christmasDay y" "Day (t1 + o2) = christmasDay y"
    using c1 c3 by (simp_all add: Day_eq_iff msPerDay_def algebra_simps)
  then have "Day (t1 + o1) = Day (t1 + o2)" by simp
  from minutesUntilMidnight_mono [OF this] o have "minutesUntilMidnight (t1 + o2) \<le> m1"
    by (simp add: c1(3))
  with m lt show False by simp
qed

text \<open>
  In the active state, the stations before the current one in the east-to-west order are
  exactly those whose local date is past December 25.
\<close>

lemma filter_eq_take:
  assumes "k \<le> length xs" "\<forall>j<length xs. P (xs ! j) \<longleftrightarrow> j < k"
  shows "filter P xs = take k xs"
proof -
  have a: "\<forall>x\<in>set (take k xs). P x"
  proof
    fix x assume "x \<in> set (take k xs)"
    then obtain i where "i < length (take k xs)" "x = take k xs ! i" by (auto simp: in_set_conv_nth)
    with assms show "P x" by simp
  qed
  have b: "\<forall>x\<in>set (drop k xs). \<not> P x"
  proof
    fix x assume "x \<in> set (drop k xs)"
    then obtain i where i: "i < length (drop k xs)" "x = drop k xs ! i" by (auto simp: in_set_conv_nth)
    then have "k + i < length xs" "x = xs ! (k + i)" using assms(1) by simp_all
    with assms(2) show "\<not> P x" by simp
  qed
  have "filter P xs = filter P (take k xs @ drop k xs)" by simp
  also have "\<dots> = filter P (take k xs) @ filter P (drop k xs)" by (rule filter_append)
  also have "\<dots> = take k xs" using a b by (simp add: filter_id_conv filter_empty_conv)
  finally show ?thesis .
qed

lemma past_stations:
  assumes k: "k < 29" "candidateMinutes now (stationsByTimezone TRACKING_STATIONS ! k) = Some m"
    and least: "\<forall>j<29. \<forall>m'. candidateMinutes now (stationsByTimezone TRACKING_STATIONS ! j) = Some m' \<longrightarrow>
               m \<le> m' \<and> (m' = m \<longrightarrow> k \<le> j)"
    and j: "j < 29"
  shows "afterDecember25 (stationLocalTime now (stationsByTimezone TRACKING_STATIONS ! j)) \<longleftrightarrow> j < k"
proof -
  let ?xs = "stationsByTimezone TRACKING_STATIONS"
  define ok where "ok = offsetMillis (?xs ! k)"
  define oj where "oj = offsetMillis (?xs ! j)"
  define tk where "tk = now + ok"
  define tj where "tj = now + oj"
  note sk = station_nth [OF k(1)] and sj = station_nth [OF j]
  note rk = offsetMillis_range [OF sk, folded ok_def] and rj = offsetMillis_range [OF sj, folded oj_def]
  from k(2) have dec: "isDecember25 (stationLocalTime now (?xs ! k))"
    by (simp add: candidateMinutes_Some)
  then have ltk: "stationLocalTime now (?xs ! k) = Some tk" and vk: "\<bar>tk\<bar> \<le> 8640000000000000"
    unfolding stationLocalTime_table [OF sk] tk_def ok_def
    by (auto simp: isDecember25_def split: if_splits)
  from dec ltk obtain y where y: "Day tk = christmasDay y"
    using isDecember25_christmasDay by auto
  from k(2) ltk have m: "m = minutesUntilMidnight tk" by (simp add: candidateMinutes_Some)
  have ltj: "stationLocalTime now (?xs ! j) = (if \<bar>tj\<bar> \<le> 8640000000000000 then Some tj else None)"
    unfolding stationLocalTime_table [OF sj] tj_def oj_def ..
  show ?thesis
  proof (cases "j < k")
    case True
    then have "offset (?xs ! k) \<le> offset (?xs ! j)"
      using k(1) by (intro stationsByTimezone_descending) (simp_all add: TRACKING_STATIONS_length)
    then have "ok \<le> oj" unfolding ok_def oj_def by (rule offsetMillis_mono)
    then have near: "tk \<le> tj" "tj \<le> tk + 90000000" using rk rj by (simp_all add: tk_def tj_def)
    have "Day tk \<le> Day 8640000000000000" using vk by (intro Day_mono) simp
    then have "christmasDay y \<le> 100000000" using y by (simp add: Day_def msPerDay_def)
    then have "christmasDay y \<le> 99999737" by (rule christmasDay_edge)
    then have "(Day tk + 1) * 86400000 \<le> 99999738 * 86400000" using y by simp
    with Day_bounds(2) [of tk] have "tk < 8639977363200000" by (simp add: msPerDay_def)
    with near vk have vj: "\<bar>tj\<bar> \<le> 8640000000000000" by simp
    with ltj have ltj': "stationLocalTime now (?xs ! j) = Some tj" by simp
    from Day_near [OF near] have d: "Day tk \<le> Day tj" "Day tj \<le> Day tk + 2" .
    have ne: "Day tj \<noteq> Day tk"
    proof
      assume same: "Day tj = Day tk"
      with y have "isDecember25 (Some tj)" using isDecember25_christmasDay by auto
      with ltj' have "candidateMinutes now (?xs ! j) = Some (minutesUntilMidnight tj)"
        by (simp add: candidateMinutes_def)
      with least j have "m \<le> minutesUntilMidnight tj" "minutesUntilMidnight tj = m \<longrightarrow> k \<le> j"
        by blast+
      moreover from minutesUntilMidnight_mono [OF same [symmetric] near(1)]
      have "minutesUntilMidnight tj \<le> m" by (simp add: m)
      ultimately show False using True by simp
    qed
    with d y have dj: "christmasDay y < Day tj" "Day tj \<le> christmasDay y + 2" by simp_all
    then have "YearFromTime tj = y" using christmasDay_year [of tj y "Day tj - christmasDay y"] by simp
    with dj have "afterDecember25 (Some tj)" by (simp add: afterDecember25_iff christmasDay_def)
    with ltj' True show ?thesis by simp
  next
    case False
    then have "offset (?xs ! j) \<le> offset (?xs ! k)"
      using j by (intro stationsByTimezone_descending) (simp_all add: TRACKING_STATIONS_length)
    then have "oj \<le> ok" unfolding ok_def oj_def by (rule offsetMillis_mono)
    then have near: "tj \<le> tk" "tk \<le> tj + 90000000" using rk rj by (simp_all add: tk_def tj_def)
    from Day_near [OF near] y have dj: "christmasDay y - 2 \<le> Day tj" "Day tj \<le> christmasDay y" by simp_all
    then have "YearFromTime tj = y" using christmasDay_year [of tj y "Day tj - christmasDay y"] by simp
    with dj have "\<not> afterDecember25 (Some tj)" by (simp add: afterDecember25_iff christmasDay_def)
    then have "\<not> afterDecember25 (stationLocalTime now (?xs ! j))"
      unfolding ltj by (simp add: afterDecember25_def)
    with False show ?thesis by simp
  qed
qed

section \<open>The current station\<close>

text \<open>
  Claim C1. At every instant at which at least one station of the compiled-in table is on
  December 25 by its own calendar, the resolver returns as current location a station that
  is on December 25 and whose minutes until local midnight plus one are the least among
  all such stations; among stations with the same minutes it is the first one of the
  east-to-west order.
\<close>

theorem current_station_has_least_minutes:
  assumes "\<exists>s\<in>set TRACKING_STATIONS. candidateMinutes now s \<noteq> None"
  shows "\<exists>r k m. getSantaLocation tza now = Inr r \<and>
           k < length (stationsByTimezone TRACKING_STATIONS) \<and>
           location r = stationsByTimezone TRACKING_STATIONS ! k \<and>
           candidateMinutes now (location r) = Some m \<and>
           (\<forall>j<length (stationsByTimezone TRACKING_STATIONS). \<forall>m'.
               candidateMinutes now (stationsByTimezone TRACKING_STATIONS ! j) = Some m' \<longrightarrow>
               m \<le> m' \<and> (m' = m \<longrightarrow> k \<le> j))"
proof -
  let ?xs = "stationsByTimezone TRACKING_STATIONS"
  obtain rest where fr: "?xs = (TRACKING_STATIONS ! 28) # rest" using first_station(1) by blast
  from assms obtain s0 where s0: "s0 \<in> set TRACKING_STATIONS" "candidateMinutes now s0 \<noteq> None"
    by blast
  have nb: "\<not> beforeDecember25 (stationLocalTime now (TRACKING_STATIONS ! 28))"
    using before_excludes_candidates [of now, OF _ s0(1)] s0(2) by blast
  from assms have "\<exists>s\<in>set ?xs. candidateMinutes now s \<noteq> None"
    by (simp add: stationsByTimezone_props)
  from scanStations_found [OF this] obtain k m where
    k: "fst (scanStations now ?xs 0 (- 1, None)) = int k" "k < length ?xs"
      "candidateMinutes now (?xs ! k) = Some m"
    and least: "\<forall>j'<length ?xs. \<forall>m'. candidateMinutes now (?xs ! j') = Some m' \<longrightarrow> m \<le> m' \<and> (m' = m \<longrightarrow> k \<le> j')"
    by blast
  from getSantaLocationOn_active [OF fr nb k(1), of tza] obtain r where
    r: "getSantaLocation tza now = Inr r" "location r = ?xs ! k"
    by (simp add: getSantaLocation_def)
  with k least show ?thesis by auto
qed

theorem current_station_has_least_minutes_witness:
  "(\<exists>s\<in>set TRACKING_STATIONS. candidateMinutes 1766723400000 s \<noteq> None) \<and>
   (\<exists>r. getSantaLocation 0 1766723400000 = Inr r \<and> name (location r) = ''NEW YORK'' \<and>
        location r = stationsByTimezone TRACKING_STATIONS ! 22 \<and>
        candidateMinutes 1766723400000 (location r) = Some 31)"
proof -
  have c: "candidateMinutes 1766723400000 (TRACKING_STATIONS ! 6) = Some 31" by code_simp
  have "TRACKING_STATIONS ! 6 \<in> set TRACKING_STATIONS" by (simp add: TRACKING_STATIONS_def)
  with c have h: "\<exists>s\<in>set TRACKING_STATIONS. candidateMinutes 1766723400000 s \<noteq> None" by force
  have ev: "map_sum id (\<lambda>r. (name (location r), location r = stationsByTimezone TRACKING_STATIONS ! 22,
      candidateMinutes 1766723400000 (location r))) (getSantaLocation 0 1766723400000)
      = Inr (''NEW YORK'', True, Some 31)" by code_simp
  from current_station_has_least_minutes [OF h, of 0] obtain r
    where "getSantaLocation 0 1766723400000 = Inr r" by blast
  with ev h show ?thesis by auto
qed

section \<open>The end of the target day\<close>

text \<open>
  The claim C2 as stated fails: at 2025-12-26T00:00:00Z it is exactly 00:00 on December 26
  in London, London is not a candidate any more, and the resolver has moved on to Cape
  Verde.
\<close>

theorem local_midnight_is_candidate_counterexample:
  "stationLocalTime 1766707200000 (TRACKING_STATIONS ! 10) = Some 1766707200000 \<and>
   name (TRACKING_STATIONS ! 10) = ''LONDON'' \<and>
   MonthFromTime 1766707200000 = 11 \<and> DateFromTime 1766707200000 = 26 \<and>
   HourFromTime 1766707200000 = 0 \<and> MinFromTime 1766707200000 = 0 \<and>
   candidateMinutes 1766707200000 (TRACKING_STATIONS ! 10) = None \<and>
   map_sum id (\<lambda>r. name (location r)) (getSantaLocation 0 1766707200000) = Inr ''CAPE VERDE''"
  by code_simp

text \<open>
  Claim C2, amended. A station whose local time is exactly 00:00 on December 26 is not a
  candidate (the loop tests the local date, and its formula would give 1441 there, not 1).
  A candidate reports between 2 and 1441 minutes; it reports 2 throughout the last minute
  of December 25.
\<close>

theorem candidate_minutes_range:
  "(stationLocalTime now s = Some ((christmasDay y + 1) * msPerDay) \<longrightarrow>
      candidateMinutes now s = None \<and>
      minutesUntilMidnight ((christmasDay y + 1) * msPerDay) = 1441)
   \<and> (candidateMinutes now s = Some m \<longrightarrow> 2 \<le> m \<and> m \<le> 1441)
   \<and> (stationLocalTime now s = Some t \<and> (christmasDay y + 1) * msPerDay - msPerMinute \<le> t \<and>
        t < (christmasDay y + 1) * msPerDay \<longrightarrow> candidateMinutes now s = Some 2)"
proof (intro conjI impI)
  assume lt: "stationLocalTime now s = Some ((christmasDay y + 1) * msPerDay)"
  let ?t = "(christmasDay y + 1) * msPerDay"
  have d: "Day ?t = christmasDay y + 1" by (rule Day_eqI) (simp_all add: msPerDay_def)
  then have "YearFromTime ?t = y" by (rule christmasDay_year) simp_all
  with d have "\<not> isDecember25 (Some ?t)" by (simp add: isDecember25_iff christmasDay_def)
  with lt show "candidateMinutes now s = None" by (simp add: candidateMinutes_def)
  have "?t mod msPerDay = 0" by simp
  then show "minutesUntilMidnight ?t = 1441" by (simp add: minutesUntilMidnight_eq)
next
  assume "candidateMinutes now s = Some m"
  then have "m = minutesUntilMidnight (the (stationLocalTime now s))"
    by (simp add: candidateMinutes_Some)
  then show "2 \<le> m" "m \<le> 1441" using minutesUntilMidnight_range by simp_all
next
  assume a: "stationLocalTime now s = Some t \<and> (christmasDay y + 1) * msPerDay - msPerMinute \<le> t \<and>
        t < (christmasDay y + 1) * msPerDay"
  define c where "c = christmasDay y"
  from a have t: "(c + 1) * 86400000 - 60000 \<le> t" "t < (c + 1) * 86400000"
    by (simp_all add: c_def msPerDay_def msPerMinute_def)
  have d: "Day t = c" by (rule Day_eqI) (use t in \<open>simp_all add: msPerDay_def\<close>)
  then have "YearFromTime t = y" using christmasDay_year [of t y 0] by (simp add: c_def)
  with d have dec: "isDecember25 (Some t)" by (simp add: isDecember25_iff christmasDay_def c_def)
  have "t mod 86400000 = t - c * 86400000"
    by (rule int_mod_pos_eq [where q = c]) (use t in auto)
  with t have r: "86340000 \<le> t mod 86400000" "t mod 86400000 < 86400000" by simp_all
  have "(t mod 86400000) div 60000 = 1439"
    by (rule int_div_pos_eq [where r = "t mod 86400000 - 86340000"]) (use r in auto)
  then have "minutesUntilMidnight t = 2" by (simp add: minutesUntilMidnight_eq msPerDay_def msPerMinute_def)
  with dec a show "candidateMinutes now s = Some 2" by (simp add: candidateMinutes_def)
qed

theorem candidate_minutes_range_witness:
  "stationLocalTime 1766707200000 (TRACKING_STATIONS ! 10) = Some ((christmasDay 2025 + 1) * msPerDay) \<and>
   candidateMinutes 1766707200000 (TRACKING_STATIONS ! 10) = None \<and>
   minutesUntilMidnight ((christmasDay 2025 + 1) * msPerDay) = 1441 \<and>
   stationLocalTime 1766707199999 (TRACKING_STATIONS ! 10) = Some 1766707199999 \<and>
   candidateMinutes 1766707199999 (TRACKING_STATIONS ! 10) = Some 2"
proof -
  have a: "stationLocalTime 1766707200000 (TRACKING_STATIONS ! 10) = Some ((christmasDay 2025 + 1) * msPerDay)"
    by code_simp
  have b: "stationLocalTime 1766707199999 (TRACKING_STATIONS ! 10) = Some 1766707199999 \<and>
      (christmasDay 2025 + 1) * msPerDay - msPerMinute \<le> 1766707199999 \<and>
      1766707199999 < (christmasDay 2025 + 1) * msPerDay"
    by code_simp
  from candidate_minutes_range [of 1766707200000 "TRACKING_STATIONS ! 10" 2025] a
  have c: "candidateMinutes 1766707200000 (TRACKING_STATIONS ! 10) = None \<and>
      minutesUntilMidnight ((christmasDay 2025 + 1) * msPerDay) = 1441" by blast
  from candidate_minutes_range [of 1766707199999 "TRACKING_STATIONS ! 10" 2025 2 1766707199999] b
  have d: "candidateMinutes 1766707199999 (TRACKING_STATIONS ! 10) = Some 2" by blast
  from a b c d show ?thesis by blast
qed

section \<open>The empty table\<close>

text \<open>
  The claim C3 as stated fails: on an empty table the resolver reads \<open>.offset\<close> of
  \<open>stationsByTimezone[0]\<close>, which is \<open>undefined\<close>, and throws.
\<close>

theorem empty_table_TypeError: "getSantaLocationOn [] 0 1766723400000 = Inl TypeError"
  by (rule getSantaLocationOn_empty)

text \<open>
  Claim C3, amended. On every non-empty table (the compiled-in one is) the resolver
  returns a state at every instant. When no station is on December 25 the current location
  is the home base, and \<open>visitedLocations\<close> is the home base alone in the pre-mission state
  (the easternmost station is in December before the 25th) and the full closed loop
  otherwise. On the empty table the resolver throws a \<open>TypeError\<close>.
\<close>

theorem resolver_returns_on_nonempty_table:
  "(stations = [] \<longrightarrow> getSantaLocationOn stations tza now = Inl TypeError) \<and>
   (stations \<noteq> [] \<longrightarrow>
      (\<exists>r. getSantaLocationOn stations tza now = Inr r \<and>
         ((\<forall>s\<in>set stations. candidateMinutes now s = None) \<longrightarrow>
            location r = NORTH_POLE \<and>
            visitedLocations r =
              (if beforeDecember25 (stationLocalTime now (hd (stationsByTimezone stations)))
               then [NORTH_POLE_COORDS] else fullRoute (stationsByTimezone stations)))))"
proof (intro conjI impI)
  assume "stations = []"
  then show "getSantaLocationOn stations tza now = Inl TypeError"
    by (simp add: getSantaLocationOn_empty)
next
  assume ne: "stations \<noteq> []"
  then obtain first rest where fr: "stationsByTimezone stations = first # rest"
    by (cases "stationsByTimezone stations") (simp_all add: stationsByTimezone_props)
  show "\<exists>r. getSantaLocationOn stations tza now = Inr r \<and>
         ((\<forall>s\<in>set stations. candidateMinutes now s = None) \<longrightarrow>
            location r = NORTH_POLE \<and>
            visitedLocations r =
              (if beforeDecember25 (stationLocalTime now (hd (stationsByTimezone stations)))
               then [NORTH_POLE_COORDS] else fullRoute (stationsByTimezone stations)))"
  proof (cases "beforeDecember25 (stationLocalTime now first)")
    case True
    from getSantaLocationOn_pre [OF fr True] True fr show ?thesis by simp
  next
    case False
    from scanStations_index [of now "stationsByTimezone stations"] show ?thesis
    proof (elim disjE exE conjE)
      assume "fst (scanStations now (stationsByTimezone stations) 0 (- 1, None)) = - 1"
      from getSantaLocationOn_post [OF fr False this] False fr show ?thesis by simp
    next
      fix k assume k: "fst (scanStations now (stationsByTimezone stations) 0 (- 1, None)) = int k"
        "k < length (stationsByTimezone stations)"
        "candidateMinutes now (stationsByTimezone stations ! k) \<noteq> None"
      then have "stationsByTimezone stations ! k \<in> set stations"
        using nth_mem [of k "stationsByTimezone stations"] by (simp add: stationsByTimezone_props)
      with k(3) have no: "\<not> (\<forall>s\<in>set stations. candidateMinutes now s = None)" by (meson option.distinct)
      from getSantaLocationOn_active [OF fr False k(1), of tza] obtain r
        where "getSantaLocationOn stations tza now = Inr r" by blast
      with no show ?thesis by blast
    qed
  qed
qed

theorem resolver_returns_on_nonempty_table_witness:
  "getSantaLocationOn [] 0 1765324800000 = Inl TypeError \<and>
   TRACKING_STATIONS \<noteq> [] \<and>
   (\<exists>r. getSantaLocation 0 1765324800000 = Inr r \<and> location r = NORTH_POLE \<and>
        visitedLocations r = [NORTH_POLE_COORDS])"
proof -
  have none: "\<forall>s\<in>set TRACKING_STATIONS. candidateMinutes 1765324800000 s = None"
    by code_simp
  have pre: "beforeDecember25 (stationLocalTime 1765324800000 (hd (stationsByTimezone TRACKING_STATIONS)))"
    by code_simp
  from resolver_returns_on_nonempty_table [of TRACKING_STATIONS 0 1765324800000]
    resolver_returns_on_nonempty_table [of "[]" 0 1765324800000]
    TRACKING_STATIONS_nonempty none pre
  show ?thesis by (auto simp: getSantaLocation_def)
qed

section \<open>The local time label\<close>

text \<open>
  Claim C4. The label is meant to be the total minutes (UTC hours times 60, plus UTC
  minutes, plus the current location's offset times 60) normalised into \<open>[0, 1440)\<close> and
  printed as zero-padded \<open>HH:MM\<close>; at UTC 00:00 and offset \<open>-5\<close> it is \<open>19:00\<close>, as
  claimed. The resolver corrects the hours of a negative total but not its minutes: at
  2025-12-26T04:30:00Z the current location is New York (offset \<open>-5\<close>), the total is
  \<open>-30\<close> minutes, and the label is \<open>23:-30\<close> where the normalised one is \<open>23:30\<close>.
\<close>

theorem localTime_label_divergence:
  "map_sum id
     (\<lambda>r. (name (location r), offset (location r), localTime r,
           normalizedLabel 1766723400000 (offset (location r))))
     (getSantaLocation 0 1766723400000)
   = Inr (''NEW YORK'', - 5, ''23:-30'', ''23:30'') \<and>
   HourFromTime 1766723400000 = 4 \<and> MinFromTime 1766723400000 = 30 \<and>
   HourFromTime 0 = 0 \<and> MinFromTime 0 = 0 \<and>
   localTimeString 0 (- 5) = ''19:00'' \<and> normalizedLabel 0 (- 5) = ''19:00''"
  by code_simp

section \<open>The planned route\<close>

text \<open>
  Claim C5. On every non-empty table (the compiled-in one is) and at every instant,
  \<open>plannedRoute\<close> is the home base, the coordinates of all stations in east-to-west order,
  and the home base again, whatever the progress of the mission: between the two home-base
  entries stand the stations of the table, each as often as in the table, in descending
  order of their offsets, and stations of the same offset in their order of the table. So
  the route starts and ends with the home base and has as many entries as there are
  stations, plus two.
\<close>

theorem plannedRoute_closed_loop:
  assumes "stations \<noteq> []"
  shows "\<exists>r route. getSantaLocationOn stations tza now = Inr r \<and>
           plannedRoute r = NORTH_POLE_COORDS # map coordinates route @ [NORTH_POLE_COORDS] \<and>
           mset route = mset stations \<and>
           sorted_wrt (\<lambda>a b. offset b \<le> offset a) route \<and>
           (\<forall>k. filter (\<lambda>s. offset s = k) route = filter (\<lambda>s. offset s = k) stations) \<and>
           hd (plannedRoute r) = NORTH_POLE_COORDS \<and>
           last (plannedRoute r) = NORTH_POLE_COORDS \<and>
           length (plannedRoute r) = length stations + 2"
proof -
  from getSantaLocationOn_plannedRoute [OF assms] obtain r
    where r: "getSantaLocationOn stations tza now = Inr r"
      "plannedRoute r = fullRoute (stationsByTimezone stations)" by blast
  let ?route = "stationsByTimezone stations"
  have 1: "plannedRoute r = NORTH_POLE_COORDS # map coordinates ?route @ [NORTH_POLE_COORDS]"
    using r(2) by (simp add: fullRoute_def)
  have 2: "mset ?route = mset stations" by (simp add: stationsByTimezone_def)
  have 3: "sorted_wrt (\<lambda>a b. offset b \<le> offset a) ?route" by (rule stationsByTimezone_ordered)
  have 4: "\<forall>k. filter (\<lambda>s. offset s = k) ?route = filter (\<lambda>s. offset s = k) stations"
    by (simp add: stationsByTimezone_stable)
  have 5: "hd (plannedRoute r) = NORTH_POLE_COORDS" "last (plannedRoute r) = NORTH_POLE_COORDS"
    "length (plannedRoute r) = length stations + 2"
    using 1 by (simp_all add: stationsByTimezone_props)
  from r(1) 1 2 3 4 5 show ?thesis by blast
qed

theorem plannedRoute_closed_loop_witness:
  "TRACKING_STATIONS \<noteq> [] \<and>
   (\<exists>r. getSantaLocation 0 1766723400000 = Inr r \<and>
     plannedRoute r =
       [(90, 0),
        (1.8709, -157.4014), (-36.8509, 174.7645), (56.1327, 159.5314), (-33.8688, 151.2093),
        (13.4443, 144.7937), (35.6762, 139.6503), (39.9042, 116.4074), (13.7563, 100.5018),
        (-6.2088, 106.8456), (23.8103, 90.4125), (19.0760, 72.8777), (28.6139, 77.2090),
        (25.2048, 55.2708), (35.6892, 51.3890), (55.7558, 37.6173), (-1.2864, 36.8172),
        (30.0444, 31.2357), (48.8566, 2.3522), (51.5074, -0.1278), (14.9330, -23.5133),
        (-22.9068, -43.1729), (10.4806, -66.9036), (40.7128, -74.0060), (41.8781, -87.6298),
        (39.7392, -104.9903), (34.0522, -118.2437), (61.2181, -149.9003), (21.3069, -157.8583),
        (28.2072, -177.3735),
        (90, 0)])"
proof -
  from plannedRoute_closed_loop [OF TRACKING_STATIONS_nonempty, of 0 1766723400000] obtain r route
    where r: "getSantaLocationOn TRACKING_STATIONS 0 1766723400000 = Inr r"
      and p: "plannedRoute r = NORTH_POLE_COORDS # map coordinates route @ [NORTH_POLE_COORDS]"
      and m: "mset route = mset TRACKING_STATIONS"
      and s: "sorted_wrt (\<lambda>a b. offset b \<le> offset a) route"
      and f: "\<forall>k. filter (\<lambda>s. offset s = k) route = filter (\<lambda>s. offset s = k) TRACKING_STATIONS"
    by blast
  have "route = stationsByTimezone TRACKING_STATIONS"
    using m s f by (rule stationsByTimezone_unique)
  then have "route = map (\<lambda>i. TRACKING_STATIONS ! i)
       [28, 27, 26, 25, 24, 23, 22, 20, 21, 19, 17, 18, 15, 16, 13, 14, 12, 11, 10, 9, 8, 7, 6, 5, 4, 3, 2, 1, 0]"
    by (simp only: stationsByTimezone_table)
  then have "map coordinates route =
       [(1.8709, -157.4014), (-36.8509, 174.7645), (56.1327, 159.5314), (-33.8688, 151.2093),
        (13.4443, 144.7937), (35.6762, 139.6503), (39.9042, 116.4074), (13.7563, 100.5018),
        (-6.2088, 106.8456), (23.8103, 90.4125), (19.0760, 72.8777), (28.6139, 77.2090),
        (25.2048, 55.2708), (35.6892, 51.3890), (55.7558, 37.6173), (-1.2864, 36.8172),
        (30.0444, 31.2357), (48.8566, 2.3522), (51.5074, -0.1278), (14.9330, -23.5133),
        (-22.9068, -43.1729), (10.4806, -66.9036), (40.7128, -74.0060), (41.8781, -87.6298),
        (39.7392, -104.9903), (34.0522, -118.2437), (61.2181, -149.9003), (21.3069, -157.8583),
        (28.2072, -177.3735)]"
    by (simp add: TRACKING_STATIONS_def)
  with p have "plannedRoute r = (90, 0) # [(1.8709, -157.4014), (-36.8509, 174.7645), (56.1327, 159.5314), (-33.8688, 151.2093),
        (13.4443, 144.7937), (35.6762, 139.6503), (39.9042, 116.4074), (13.7563, 100.5018),
        (-6.2088, 106.8456), (23.8103, 90.4125), (19.0760, 72.8777), (28.6139, 77.2090),
        (25.2048, 55.2708), (35.6892, 51.3890), (55.7558, 37.6173), (-1.2864, 36.8172),
        (30.0444, 31.2357), (48.8566, 2.3522), (51.5074, -0.1278), (14.9330, -23.5133),
        (-22.9068, -43.1729), (10.4806, -66.9036), (40.7128, -74.0060), (41.8781, -87.6298),
        (39.7392, -104.9903), (34.0522, -118.2437), (61.2181, -149.9003), (21.3069, -157.8583),
        (28.2072, -177.3735)] @ [(90, 0)]"
    by (simp only: NORTH_POLE_COORDS_def)
  with r show ?thesis
    by (simp add: getSantaLocation_def TRACKING_STATIONS_nonempty)
qed


section \<open>The visited locations over a mission cycle\<close>

text \<open>
  Claim C6. For the compiled-in table, take a mission cycle that lies within the range of
  time values: from the instant December 1 of a year \<open>y\<close> begins at the easternmost
  station (the first instant of the pre-mission state) up to, and excluding, that instant
  of the next year. For two instants \<open>t1 \<le> t2\<close> of the cycle, \<open>visitedLocations\<close> at
  \<open>t1\<close> is at most as long as at \<open>t2\<close>. Its length stays below the number of stations
  plus two until December 26 begins at the westernmost station, and is the number of
  stations plus two from then on.
\<close>

theorem visited_length_nondecreasing:
  assumes "- 271821 \<le> y" "y \<le> 275758"
    and "cycleStart y \<le> t1" "t1 \<le> t2" "t2 < cycleStart (y + 1)"
  shows "\<exists>r1 r2. getSantaLocation tza t1 = Inr r1 \<and> getSantaLocation tza t2 = Inr r2 \<and>
           length (visitedLocations r1) \<le> length (visitedLocations r2) \<and>
           (if t2 < missionEnd y then length (visitedLocations r2) < length TRACKING_STATIONS + 2
            else length (visitedLocations r2) = length TRACKING_STATIONS + 2)"
proof -
  note y = assms(1,2)
  have c1: "cycleStart y \<le> t1" "t1 < cycleStart (y + 1)" using assms by simp_all
  have c2: "cycleStart y \<le> t2" "t2 < cycleStart (y + 1)" using assms by simp_all
  have order: "launchTime y < missionEnd y" unfolding cycle_times by simp
  consider (pre) "t2 < launchTime y" | (active) "launchTime y \<le> t2" "t2 < missionEnd y"
    | (post) "missionEnd y \<le> t2" by linarith
  then show ?thesis
  proof cases
    case pre
    with assms(4) have "t1 < launchTime y" by simp
    from cycle_phase_pre [OF y c1 this, of tza] cycle_phase_pre [OF y c2 pre, of tza] pre order
    show ?thesis by (auto simp: TRACKING_STATIONS_length)
  next
    case post
    from cycle_phase_post [OF y c2 post, of tza] obtain r2
      where r2: "getSantaLocation tza t2 = Inr r2" "length (visitedLocations r2) = 31" by blast
    have "\<exists>r1. getSantaLocation tza t1 = Inr r1 \<and> length (visitedLocations r1) \<le> 31"
    proof -
      consider (a) "t1 < launchTime y" | (b) "launchTime y \<le> t1" "t1 < missionEnd y"
        | (c) "missionEnd y \<le> t1" by linarith
      then show ?thesis
      proof cases
        case a
        from cycle_phase_pre [OF y c1 a, of tza] show ?thesis by auto
      next
        case b
        from cycle_phase_active [OF y c1 b] obtain k where "k < 29"
          "\<forall>tza. \<exists>r. getSantaLocation tza t1 = Inr r \<and> length (visitedLocations r) = k + 2" by blast
        then obtain r where "getSantaLocation tza t1 = Inr r" "length (visitedLocations r) = k + 2"
          by blast
        with \<open>k < 29\<close> show ?thesis by simp
      next
        case c
        from cycle_phase_post [OF y c1 c, of tza] show ?thesis by auto
      qed
    qed
    with r2 post show ?thesis by (auto simp: TRACKING_STATIONS_length)
  next
    case active
    from cycle_phase_active [OF y c2 active] obtain k2 m2 where
      k2: "k2 < 29" "candidateMinutes t2 (stationsByTimezone TRACKING_STATIONS ! k2) = Some m2"
      and r2: "\<forall>tza. \<exists>r. getSantaLocation tza t2 = Inr r \<and> length (visitedLocations r) = k2 + 2"
      by blast
    from r2 obtain r2' where r2': "getSantaLocation tza t2 = Inr r2'" "length (visitedLocations r2') = k2 + 2"
      by blast
    have "\<exists>r1. getSantaLocation tza t1 = Inr r1 \<and> length (visitedLocations r1) \<le> k2 + 2"
    proof (cases "t1 < launchTime y")
      case True
      from cycle_phase_pre [OF y c1 True, of tza] show ?thesis by auto
    next
      case False
      then have b: "launchTime y \<le> t1" "t1 < missionEnd y" using active assms(4) by simp_all
      from cycle_phase_active [OF y c1 b] obtain k1 m1 where
        k1: "k1 < 29" "candidateMinutes t1 (stationsByTimezone TRACKING_STATIONS ! k1) = Some m1"
        and least1: "\<forall>j<29. \<forall>m'. candidateMinutes t1 (stationsByTimezone TRACKING_STATIONS ! j) = Some m' \<longrightarrow>
               m1 \<le> m' \<and> (m' = m1 \<longrightarrow> k1 \<le> j)"
        and r1: "\<forall>tza. \<exists>r. getSantaLocation tza t1 = Inr r \<and> length (visitedLocations r) = k1 + 2"
        by blast
      have "k1 \<le> k2" by (rule cycle_index_mono [OF y c1 c2 assms(4) k1 least1 k2])
      moreover from r1 obtain r where "getSantaLocation tza t1 = Inr r" "length (visitedLocations r) = k1 + 2"
        by blast
      ultimately show ?thesis by simp
    qed
    with r2' k2(1) active show ?thesis by (auto simp: TRACKING_STATIONS_length)
  qed
qed

theorem visited_length_nondecreasing_witness:
  "cycleStart 2025 \<le> 1766570400000 \<and> (1766570400000 :: int) \<le> 1766723400000 \<and>
   1766746799999 < missionEnd 2025 \<and> missionEnd 2025 \<le> 1766746800000 \<and>
   1766746800000 < cycleStart 2026 \<and>
   (\<exists>r1 r2 r3 r4. getSantaLocation 0 1766570400000 = Inr r1 \<and> length (visitedLocations r1) = 2 \<and>
      getSantaLocation 0 1766723400000 = Inr r2 \<and> length (visitedLocations r2) = 24 \<and>
      getSantaLocation 0 1766746799999 = Inr r3 \<and> length (visitedLocations r3) = 30 \<and>
      getSantaLocation 0 1766746800000 = Inr r4 \<and> length (visitedLocations r4) = 31)"
proof -
  have t: "cycleStart 2025 \<le> 1766570400000" "(1766570400000 :: int) \<le> 1766723400000"
    "1766723400000 < cycleStart (2025 + 1)" "cycleStart 2025 \<le> 1766746799999"
    "(1766746799999 :: int) \<le> 1766746800000" "1766746800000 < cycleStart (2025 + 1)"
    "1766746799999 < missionEnd 2025" "missionEnd 2025 \<le> 1766746800000"
    by (simp_all add: cycle_2025)
  have y: "- 271821 \<le> (2025 :: int)" "(2025 :: int) \<le> 275758" by simp_all
  have ev: "map_sum id (\<lambda>r. length (visitedLocations r)) (getSantaLocation 0 1766570400000) = Inr 2"
    "map_sum id (\<lambda>r. length (visitedLocations r)) (getSantaLocation 0 1766723400000) = Inr 24"
    "map_sum id (\<lambda>r. length (visitedLocations r)) (getSantaLocation 0 1766746799999) = Inr 30"
    "map_sum id (\<lambda>r. length (visitedLocations r)) (getSantaLocation 0 1766746800000) = Inr 31"
    by code_simp+
  have t': "1766746800000 < cycleStart 2026" using t(6) by simp
  from visited_length_nondecreasing [OF y t(1,2,3), of 0] obtain r1 r2 where
    a: "getSantaLocation 0 1766570400000 = Inr r1" "getSantaLocation 0 1766723400000 = Inr r2" by blast
  from visited_length_nondecreasing [OF y t(4,5,6), of 0] obtain r3 r4 where
    b: "getSantaLocation 0 1766746799999 = Inr r3" "getSantaLocation 0 1766746800000 = Inr r4" by blast
  from ev a b have "length (visitedLocations r1) = 2" "length (visitedLocations r2) = 24"
    "length (visitedLocations r3) = 30" "length (visitedLocations r4) = 31" by simp_all
  with a b t t' show ?thesis by blast
qed

section \<open>The visited locations\<close>

text \<open>
  The claim C7 as stated fails: at 2025-12-26T04:30:00Z the current station is New York,
  which is still on December 25, and its coordinates are the last entry of
  \<open>visitedLocations\<close>.
\<close>

theorem visited_is_past_stations_counterexample:
  "map_sum id
     (\<lambda>r. (name (location r),
           isDecember25 (stationLocalTime 1766723400000 (location r)),
           coordinates (location r) \<in> set (visitedLocations r),
           visitedLocations r =
             NORTH_POLE_COORDS # map coordinates
               (filter (\<lambda>s. afterDecember25 (stationLocalTime 1766723400000 s))
                  (stationsByTimezone TRACKING_STATIONS))))
     (getSantaLocation 0 1766723400000)
   = Inr (''NEW YORK'', True, True, False)"
  by code_simp

text \<open>
  Claim C7, amended. At every instant, \<open>visitedLocations\<close> is: the home base alone in
  the pre-mission state; in the active state (some station is on December 25) the home
  base, then the coordinates of every station whose local date is past December 25, in
  east-to-west order, then the coordinates of the current station, which is still on
  December 25; and otherwise the full closed loop, with the home base at both ends.
\<close>

theorem visitedLocations_shape:
  "\<exists>r. getSantaLocation tza now = Inr r \<and>
     visitedLocations r =
       (if beforeDecember25 (stationLocalTime now (hd (stationsByTimezone TRACKING_STATIONS)))
        then [NORTH_POLE_COORDS]
        else if \<exists>s\<in>set TRACKING_STATIONS. candidateMinutes now s \<noteq> None
        then NORTH_POLE_COORDS #
             map coordinates (filter (\<lambda>s. afterDecember25 (stationLocalTime now s))
                                (stationsByTimezone TRACKING_STATIONS)) @
             [coordinates (location r)]
        else NORTH_POLE_COORDS # map coordinates (stationsByTimezone TRACKING_STATIONS) @
             [NORTH_POLE_COORDS]) \<and>
     ((\<exists>s\<in>set TRACKING_STATIONS. candidateMinutes now s \<noteq> None) \<longrightarrow>
        candidateMinutes now (location r) \<noteq> None \<and>
        \<not> afterDecember25 (stationLocalTime now (location r)))"
proof -
  let ?xs = "stationsByTimezone TRACKING_STATIONS"
  have len: "length ?xs = 29" by (simp add: stationsByTimezone_props TRACKING_STATIONS_length)
  obtain rest where fr: "?xs = (TRACKING_STATIONS ! 28) # rest" using first_station(1) by blast
  then have hd: "hd ?xs = TRACKING_STATIONS ! 28" by simp
  show ?thesis
  proof (cases "\<exists>s\<in>set TRACKING_STATIONS. candidateMinutes now s \<noteq> None")
    case False
    then have none: "\<forall>s\<in>set ?xs. candidateMinutes now s = None"
      by (simp add: stationsByTimezone_props)
    show ?thesis
    proof (cases "beforeDecember25 (stationLocalTime now (TRACKING_STATIONS ! 28))")
      case True
      from getSantaLocationOn_pre [OF fr True, of tza] True False show ?thesis
        unfolding hd by (simp add: getSantaLocation_def)
    next
      case nb: False
      from getSantaLocationOn_post [OF fr nb scanStations_none [OF none], of tza] nb False
      show ?thesis unfolding hd by (simp add: getSantaLocation_def fullRoute_def)
    qed
  next
    case True
    then obtain s0 where s0: "s0 \<in> set TRACKING_STATIONS" "candidateMinutes now s0 \<noteq> None" by blast
    have nb: "\<not> beforeDecember25 (stationLocalTime now (TRACKING_STATIONS ! 28))"
      using before_excludes_candidates [of now, OF _ s0(1)] s0(2) by blast
    from True have "\<exists>s\<in>set ?xs. candidateMinutes now s \<noteq> None" by (simp add: stationsByTimezone_props)
    from scanStations_found [OF this] len obtain k m where
      k: "fst (scanStations now ?xs 0 (- 1, None)) = int k" "k < 29"
        "candidateMinutes now (?xs ! k) = Some m"
      and least: "\<forall>j<29. \<forall>m'. candidateMinutes now (?xs ! j) = Some m' \<longrightarrow> m \<le> m' \<and> (m' = m \<longrightarrow> k \<le> j)"
      by auto
    have "\<forall>j<length ?xs. afterDecember25 (stationLocalTime now (?xs ! j)) \<longleftrightarrow> j < k"
      unfolding len using past_stations [OF k(2,3) least] by blast
    then have flt: "filter (\<lambda>s. afterDecember25 (stationLocalTime now s)) ?xs = take k ?xs"
      using k(2) len by (intro filter_eq_take) simp_all
    have tk: "take (Suc k) ?xs = take k ?xs @ [?xs ! k]"
      using k(2) len by (simp add: take_Suc_conv_app_nth)
    have np: "\<not> afterDecember25 (stationLocalTime now (?xs ! k))"
      using past_stations [OF k(2,3) least k(2)] by simp
    from getSantaLocationOn_active [OF fr nb k(1), of tza] obtain r where
      r: "getSantaLocation tza now = Inr r" "location r = ?xs ! k"
        "visitedLocations r = NORTH_POLE_COORDS # map coordinates (take (Suc k) ?xs)"
      by (simp add: getSantaLocation_def)
    from r(3) have "visitedLocations r = NORTH_POLE_COORDS #
        map coordinates (filter (\<lambda>s. afterDecember25 (stationLocalTime now s)) ?xs) @ [coordinates (location r)]"
      unfolding tk flt r(2) by simp
    with r True nb k(3) np show ?thesis unfolding hd by auto
  qed
qed

theorem visitedLocations_shape_witness:
  "(\<exists>s\<in>set TRACKING_STATIONS. candidateMinutes 1766723400000 s \<noteq> None) \<and>
   (\<exists>r. getSantaLocation 0 1766723400000 = Inr r \<and>
      visitedLocations r =
        NORTH_POLE_COORDS #
        map coordinates (filter (\<lambda>s. afterDecember25 (stationLocalTime 1766723400000 s))
                           (stationsByTimezone TRACKING_STATIONS)) @
        [coordinates (location r)] \<and>
      name (location r) = ''NEW YORK'' \<and> length (visitedLocations r) = 24)"
proof -
  have c: "candidateMinutes 1766723400000 (TRACKING_STATIONS ! 6) = Some 31" by code_simp
  have "TRACKING_STATIONS ! 6 \<in> set TRACKING_STATIONS" by (simp add: TRACKING_STATIONS_def)
  with c have h: "\<exists>s\<in>set TRACKING_STATIONS. candidateMinutes 1766723400000 s \<noteq> None" by force
  have nb: "\<not> beforeDecember25 (stationLocalTime 1766723400000 (hd (stationsByTimezone TRACKING_STATIONS)))"
    by code_simp
  have ev: "map_sum id (\<lambda>r. (name (location r), length (visitedLocations r)))
      (getSantaLocation 0 1766723400000) = Inr (''NEW YORK'', 24)" by code_simp
  from visitedLocations_shape [of 0 1766723400000] h nb obtain r where
    r: "getSantaLocation 0 1766723400000 = Inr r"
      "visitedLocations r =
        NORTH_POLE_COORDS #
        map coordinates (filter (\<lambda>s. afterDecember25 (stationLocalTime 1766723400000 s))
                           (stationsByTimezone TRACKING_STATIONS)) @
        [coordinates (location r)]"
    by auto
  with ev h show ?thesis by auto
qed

section \<open>Regions without a message set\<close>

text \<open>
  The claim C8 as stated fails: the region tag \<open>MARS\<close> has no message set, and with the
  first draw \<open>0.5\<close>, which lies in the region band, the generator returns the velocity
  message, which is not one of the generic messages; with the first draw \<open>0.875\<close> and the
  same second draw it returns a generic one.
\<close>

theorem unknown_region_gets_generic_counterexample:
  "REGION_LOGS_get ''MARS'' = Absent \<and> binary64 0.4 \<le> 1 / 2 \<and> 1 / 2 < binary64 0.7 \<and>
   generateIntelMessage ''LONDON'' ''MARS'' (17 / 4) 4551000000 (1 / 2) (3 / 4)
     = Inr (Some ''CURRENT VELOCITY: MACH 4.25 // HULL INTEGRITY 100%'') \<and>
   generateIntelMessage ''LONDON'' ''MARS'' (17 / 4) 4551000000 (7 / 8) (3 / 4)
     = Inr (Some ''ATMOSPHERIC ENTRY DETECTED // SHIELDS HOLDING'') \<and>
   ''CURRENT VELOCITY: MACH 4.25 // HULL INTEGRITY 100%'' \<notin> set GENERIC_LOGS"
  by code_simp

text \<open>
  Claim C8, amended. For every location name other than the home base's, every speed and
  delivered count and every region tag for which \<open>REGION_LOGS[region]\<close> is \<open>undefined\<close>:
  a first draw in \<open>[0.4, 0.7)\<close> falls through to the statistics band, where the message is
  the velocity message when the second draw exceeds \<open>0.5\<close> and the payload message
  otherwise; a first draw in \<open>[0.7, 0.85)\<close> gives the same; a first draw of \<open>0.85\<close> or more
  gives the entry of the generic set that the second draw selects; and whenever the
  message returned is one of the generic set, the first draw was \<open>0.85\<close> or more. The bounds
  are the binary64 values of the literals, as the source compares with them.
\<close>

theorem unknown_region_falls_to_stats:
  assumes "locationName \<noteq> ''NORTH POLE''" "REGION_LOGS_get regionTag = Absent"
  shows "(\<forall>rand rand2. binary64 0.4 \<le> rand \<and> rand < binary64 0.7 \<longrightarrow>
            generateIntelMessage locationName regionTag speed delivered rand rand2
              = Inr (Some (if rand2 > 1 / 2 then velocityMessage speed else payloadMessage delivered)))
       \<and> (\<forall>rand rand2. binary64 0.7 \<le> rand \<and> rand < binary64 0.85 \<longrightarrow>
            generateIntelMessage locationName regionTag speed delivered rand rand2
              = Inr (Some (if rand2 > 1 / 2 then velocityMessage speed else payloadMessage delivered)))
       \<and> (\<forall>rand rand2. binary64 0.85 \<le> rand \<longrightarrow>
            generateIntelMessage locationName regionTag speed delivered rand rand2
              = Inr (pick GENERIC_LOGS rand2))
       \<and> (\<forall>rand rand2 m.
            generateIntelMessage locationName regionTag speed delivered rand rand2 = Inr (Some m) \<and>
            m \<in> set GENERIC_LOGS \<longrightarrow> binary64 0.85 \<le> rand)"
proof (intro conjI allI impI)
  fix rand rand2 :: rat
  assume "binary64 0.4 \<le> rand \<and> rand < binary64 0.7"
  then have "binary64 0.4 \<le> rand" "rand < binary64 0.85"
    using binary64_literals_ordered(2) by linarith+
  then show "generateIntelMessage locationName regionTag speed delivered rand rand2
      = Inr (Some (if rand2 > 1 / 2 then velocityMessage speed else payloadMessage delivered))"
    by (rule generateIntelMessage_stats_band [OF assms])
next
  fix rand rand2 :: rat
  assume "binary64 0.7 \<le> rand \<and> rand < binary64 0.85"
  then have "binary64 0.4 \<le> rand" "rand < binary64 0.85"
    using binary64_literals_ordered(1) by linarith+
  then show "generateIntelMessage locationName regionTag speed delivered rand rand2
      = Inr (Some (if rand2 > 1 / 2 then velocityMessage speed else payloadMessage delivered))"
    by (rule generateIntelMessage_stats_band [OF assms])
next
  fix rand rand2 :: rat
  assume "binary64 0.85 \<le> rand"
  then show "generateIntelMessage locationName regionTag speed delivered rand rand2
      = Inr (pick GENERIC_LOGS rand2)"
    by (rule generateIntelMessage_generic_band [OF assms(1)])
next
  fix rand rand2 :: rat and m
  assume "generateIntelMessage locationName regionTag speed delivered rand rand2 = Inr (Some m) \<and>
            m \<in> set GENERIC_LOGS"
  then show "binary64 0.85 \<le> rand"
    using generic_only_from_085 [OF assms] by blast
qed

theorem unknown_region_falls_to_stats_witness:
  "''LONDON'' \<noteq> ''NORTH POLE'' \<and> REGION_LOGS_get ''MARS'' = Absent \<and>
   binary64 0.4 \<le> 1 / 2 \<and> 1 / 2 < binary64 0.7 \<and>
   binary64 0.7 \<le> 3 / 4 \<and> 3 / 4 < binary64 0.85 \<and> binary64 0.85 \<le> 7 / 8 \<and>
   generateIntelMessage ''LONDON'' ''MARS'' (17 / 4) 4551000000 (1 / 2) (1 / 4)
     = Inr (Some ''PAYLOAD UPDATE: 4.551B UNITS CONFIRMED'') \<and>
   generateIntelMessage ''LONDON'' ''MARS'' (17 / 4) 4551000000 (3 / 4) (1 / 4)
     = Inr (Some ''PAYLOAD UPDATE: 4.551B UNITS CONFIRMED'') \<and>
   generateIntelMessage ''LONDON'' ''MARS'' (17 / 4) 4551000000 (7 / 8) (1 / 4)
     = Inr (Some ''AIRSPACE CLEARED FOR TRANSIT'') \<and>
   ''AIRSPACE CLEARED FOR TRANSIT'' \<in> set GENERIC_LOGS"
proof -
  have h: "''LONDON'' \<noteq> ''NORTH POLE''" "REGION_LOGS_get ''MARS'' = Absent"
    by (simp_all add: REGION_LOGS_get_def REGION_LOGS_def Object_prototype_keys_def)
  have d: "binary64 0.4 \<le> 1 / 2 \<and> 1 / 2 < binary64 0.7" "binary64 0.7 \<le> 3 / 4 \<and> 3 / 4 < binary64 0.85"
    "binary64 0.85 \<le> 7 / 8"
    using binary64_dyadic_draws by simp_all
  have p: "payloadMessage 4551000000 = ''PAYLOAD UPDATE: 4.551B UNITS CONFIRMED''"
    "pick GENERIC_LOGS (1 / 4) = Some ''AIRSPACE CLEARED FOR TRANSIT''"
    by code_simp+
  have g: "''AIRSPACE CLEARED FOR TRANSIT'' \<in> set GENERIC_LOGS"
    by (simp add: GENERIC_LOGS_def)
  note t = unknown_region_falls_to_stats [OF h, of "17 / 4" 4551000000]
  from t d(1) have "generateIntelMessage ''LONDON'' ''MARS'' (17 / 4) 4551000000 (1 / 2) (1 / 4)
      = Inr (Some (if (1 / 4 :: rat) > 1 / 2 then velocityMessage (17 / 4) else payloadMessage 4551000000))"
    by blast
  then have a: "generateIntelMessage ''LONDON'' ''MARS'' (17 / 4) 4551000000 (1 / 2) (1 / 4)
      = Inr (Some ''PAYLOAD UPDATE: 4.551B UNITS CONFIRMED'')"
    using p(1) by simp
  from t d(2) have "generateIntelMessage ''LONDON'' ''MARS'' (17 / 4) 4551000000 (3 / 4) (1 / 4)
      = Inr (Some (if (1 / 4 :: rat) > 1 / 2 then velocityMessage (17 / 4) else payloadMessage 4551000000))"
    by blast
  then have b: "generateIntelMessage ''LONDON'' ''MARS'' (17 / 4) 4551000000 (3 / 4) (1 / 4)
      = Inr (Some ''PAYLOAD UPDATE: 4.551B UNITS CONFIRMED'')"
    using p(1) by simp
  from t d(3) have "generateIntelMessage ''LONDON'' ''MARS'' (17 / 4) 4551000000 (7 / 8) (1 / 4)
      = Inr (pick GENERIC_LOGS (1 / 4))"
    by blast
  then have c: "generateIntelMessage ''LONDON'' ''MARS'' (17 / 4) 4551000000 (7 / 8) (1 / 4)
      = Inr (Some ''AIRSPACE CLEARED FOR TRANSIT'')"
    using p(2) by simp
  from h d a b c g show ?thesis by blast
qed

section \<open>The delivered count\<close>

text \<open>
  Claim C9. For every clock reading \<open>now\<close>, \<open>calculateGifts\<close> returns the base constant
  \<open>4500000000\<close> plus fifteen times the remainder of \<open>now\<close> by \<open>10000000\<close>; the remainder is
  the one of \<open>%\<close>, which is \<open>now mod 10000000\<close> for every reading at or after the epoch and
  carries the sign of \<open>now\<close> before it. The result depends on \<open>now\<close> alone, and it and the
  remainder stay below \<open>2^53\<close> in size, so the arithmetic is exact integer arithmetic.
\<close>

theorem calculateGifts_formula:
  "calculateGifts now = 4500000000 + (sgn now * (\<bar>now\<bar> mod 10000000)) * 15
   \<and> (0 \<le> now \<longrightarrow> calculateGifts now = 4500000000 + (now mod 10000000) * 15)
   \<and> 4350000015 \<le> calculateGifts now \<and> calculateGifts now \<le> 4649999985"
proof -
  define r where "r = js_rem_int now 10000000"
  have g: "calculateGifts now = 4500000000 + r * 15"
    by (simp add: calculateGifts_def r_def)
  have r1: "r = sgn now * (\<bar>now\<bar> mod 10000000)"
    unfolding r_def by (rule js_rem_int_sgn) simp
  have r2: "0 \<le> now \<Longrightarrow> r = now mod 10000000"
    unfolding r_def by (subst js_rem_int_pos) simp_all
  have r3: "- 10000000 < r" "r < 10000000"
    unfolding r_def by (rule js_rem_int_bounds, simp)+
  have c1: "calculateGifts now = 4500000000 + (sgn now * (\<bar>now\<bar> mod 10000000)) * 15"
    unfolding g r1 ..
  have c2: "0 \<le> now \<longrightarrow> calculateGifts now = 4500000000 + (now mod 10000000) * 15"
    using r2 unfolding g by blast
  have c3: "4350000015 \<le> calculateGifts now" "calculateGifts now \<le> 4649999985"
    unfolding g using r3 by linarith+
  from c1 c2 c3 show ?thesis by blast
qed

theorem calculateGifts_formula_witness:
  "calculateGifts 1766723400000 = 4500000000 + (sgn 1766723400000 * (\<bar>1766723400000\<bar> mod 10000000)) * 15
   \<and> calculateGifts 1766723400000 = 4500000000 + (1766723400000 mod 10000000) * 15
   \<and> calculateGifts 1766723400000 = 4551000000"
  using calculateGifts_formula [of 1766723400000] by simp

section \<open>The regions of the table\<close>

text \<open>
  Claim C10. Every region tag of the compiled-in table, and the home base's tag
  \<open>ARCTIC\<close>, has a message set in \<open>REGION_LOGS\<close>. So at every instant the region of the
  resolved location has a message set, and for the resolved name and region a first draw
  in \<open>[0.4, 0.7)\<close> (between the binary64 values of the two literals) yields the entry of
  that set which the second draw selects: the fall-through for a region without one is not
  taken.
\<close>

theorem resolved_region_has_message_set:
  "(\<forall>s\<in>set TRACKING_STATIONS. \<exists>logs. REGION_LOGS_get (region s) = Own logs) \<and>
   (\<exists>logs. REGION_LOGS_get ''ARCTIC'' = Own logs) \<and>
   (\<exists>r logs. getSantaLocation tza now = Inr r \<and>
      REGION_LOGS_get (region (location r)) = Own logs \<and>
      (\<forall>speed delivered rand rand2.
          name (location r) \<noteq> ''NORTH POLE'' \<and> binary64 0.4 \<le> rand \<and> rand < binary64 0.7 \<longrightarrow>
          generateIntelMessage (name (location r)) (region (location r)) speed delivered rand rand2
            = Inr (pick logs rand2)))"
proof (intro conjI)
  show "\<forall>s\<in>set TRACKING_STATIONS. \<exists>logs. REGION_LOGS_get (region s) = Own logs"
    by (rule table_regions)
  show "\<exists>logs. REGION_LOGS_get ''ARCTIC'' = Own logs"
    by (rule REGION_LOGS_get_ARCTIC)
  obtain r where r: "getSantaLocation tza now = Inr r"
    using getSantaLocationOn_plannedRoute [OF TRACKING_STATIONS_nonempty, of tza now]
    by (auto simp: getSantaLocation_def)
  then have "location r = NORTH_POLE \<or> location r \<in> set TRACKING_STATIONS"
    unfolding getSantaLocation_def by (rule getSantaLocationOn_location)
  then obtain logs where logs: "REGION_LOGS_get (region (location r)) = Own logs"
    using table_regions REGION_LOGS_get_ARCTIC by (auto simp: NORTH_POLE_def)
  have "\<forall>speed delivered rand rand2.
          name (location r) \<noteq> ''NORTH POLE'' \<and> binary64 0.4 \<le> rand \<and> rand < binary64 0.7 \<longrightarrow>
          generateIntelMessage (name (location r)) (region (location r)) speed delivered rand rand2
            = Inr (pick logs rand2)"
    using generateIntelMessage_region_band [OF _ _ _ logs] by blast
  with r logs show "\<exists>r logs. getSantaLocation tza now = Inr r \<and>
      REGION_LOGS_get (region (location r)) = Own logs \<and>
      (\<forall>speed delivered rand rand2.
          name (location r) \<noteq> ''NORTH POLE'' \<and> binary64 0.4 \<le> rand \<and> rand < binary64 0.7 \<longrightarrow>
          generateIntelMessage (name (location r)) (region (location r)) speed delivered rand rand2
            = Inr (pick logs rand2))"
    by blast
qed

theorem resolved_region_has_message_set_witness:
  "\<exists>r. getSantaLocation 0 1766723400000 = Inr r \<and> name (location r) = ''NEW YORK'' \<and>
        region (location r) = ''N. AMERICA'' \<and>
        generateIntelMessage (name (location r)) (region (location r)) (17 / 4) 4551000000 (1 / 2) (7 / 8)
          = Inr (Some ''FIGHTER WING DEPLOYED AS HONOR GUARD'')"
proof -
  have ev: "map_sum id (\<lambda>r. (name (location r), region (location r))) (getSantaLocation 0 1766723400000)
              = Inr (''NEW YORK'', ''N. AMERICA'')"
    by code_simp
  from resolved_region_has_message_set [of 0 1766723400000] obtain r logs
    where r: "getSantaLocation 0 1766723400000 = Inr r"
      and logs: "REGION_LOGS_get (region (location r)) = Own logs"
      and gen: "\<forall>speed delivered rand rand2.
          name (location r) \<noteq> ''NORTH POLE'' \<and> binary64 0.4 \<le> rand \<and> rand < binary64 0.7 \<longrightarrow>
          generateIntelMessage (name (location r)) (region (location r)) speed delivered rand rand2
            = Inr (pick logs rand2)"
    by blast
  from ev r have nm: "name (location r) = ''NEW YORK''" "region (location r) = ''N. AMERICA''"
    by simp_all
  have "REGION_LOGS_get ''N. AMERICA'' = Own [''NORAD MAIN SENSORS: 100% CONFIDENCE'',
      ''EAST COAST DEFENSE GRID: GREEN'', ''CANADIAN NORAD REGION: CONTACT'',
      ''FIGHTER WING DEPLOYED AS HONOR GUARD'']"
    by (simp add: REGION_LOGS_get_def REGION_LOGS_def)
  with logs nm have l: "logs = [''NORAD MAIN SENSORS: 100% CONFIDENCE'',
      ''EAST COAST DEFENSE GRID: GREEN'', ''CANADIAN NORAD REGION: CONTACT'',
      ''FIGHTER WING DEPLOYED AS HONOR GUARD'']" by simp
  have "name (location r) \<noteq> ''NORTH POLE'' \<and> binary64 0.4 \<le> 1 / 2 \<and> 1 / 2 < binary64 0.7"
    using nm binary64_dyadic_draws by simp
  with gen have "generateIntelMessage (name (location r)) (region (location r)) (17 / 4) 4551000000 (1 / 2) (7 / 8)
            = Inr (pick logs (7 / 8))" by blast
  also have "pick logs (7 / 8) = Some ''FIGHTER WING DEPLOYED AS HONOR GUARD''"
    unfolding l by code_simp
  finally show ?thesis using r nm by blast
qed

end
